theory Spec2Isabelle
  imports Complex_Main "HOL-Library.Word"
begin

section \<open>PathPlanner/SearchNode.cpp: the planner-side node of the path planner example\<close>

text \<open>
  The node is a class with eight numeric fields and a pointer to a \<open>Planner\<close>. The
  framework calls \<open>okStateEvent\<close> periodically and \<open>messageEvent\<close> for every message
  received from the bus. Both are embedded as functions on a record of the fields.

  \<^item> The entries of a platform motion message are doubles. The fields are declared in
    \<open>SearchNode.hpp\<close>; their types are read off the source: \<open>double(_golLocX)\<close>,
    \<open>double(_golLocY)\<close> and \<open>double(_numWaypoints)\<close> convert \<open>int\<close> fields;
    \<open>_waypointCounter\<close> counts waypoints, is tested against \<open>_numWaypoints - 2\<close> and
    indexes the path in \<open>getNextWaypoint( _waypointCounter + 1 )\<close>: an \<open>int\<close> as well;
    \<open>int(_robLocX)\<close> and \<open>int(_robLocY)\<close> convert floating fields; \<open>_newRobLocX\<close> and
    \<open>_newRobLocY\<close> go into \<open>setOrientation\<close> with no conversion: floating, taken as
    doubles like the robot location.
  \<^item> An \<open>int\<close> is a 32-bit word, read as two's complement; its arithmetic wraps around.
  \<^item> A double is the rational number it stands for (the infinities and NaN are left
    out). The node computes nothing on doubles: it copies them, compares them and
    converts them to \<open>int\<close>.
  \<^item> \<open>Planner\<close> and its \<open>world\<close> are declared outside this file: their operations are a
    parameter of the model (\<open>planner_ops\<close>).
  \<^item> What the node does beyond changing its fields (calls on the planner, messages
    published, sleeping, disconnecting) is returned as a list of events, in the order of
    the source. Console output and message timestamps are left out.
\<close>

subsection \<open>Numbers\<close>

type_synonym c_int = "32 word"

type_synonym double = rat

definition INVALID_LOC :: c_int where
  "INVALID_LOC = - 1"

text \<open>\<open>double(i)\<close>, also where the source compares an \<open>int\<close> with a double.\<close>

definition double_of_int :: "c_int \<Rightarrow> double" where
  "double_of_int i = of_int (sint i)"

text \<open>
  \<open>int(x)\<close>, also where the source assigns a double to an \<open>int\<close>: the fraction is
  dropped, towards zero. Beyond the range of \<open>int\<close> the conversion is undefined in C++;
  the model keeps the low 32 bits of the truncated value.
\<close>

definition trunc :: "double \<Rightarrow> int" where
  "trunc x = (if 0 \<le> x then \<lfloor>x\<rfloor> else \<lceil>x\<rceil>)"

definition int_of_double :: "double \<Rightarrow> c_int" where
  "int_of_double x = word_of_int (trunc x)"

subsection \<open>Messages\<close>

type_synonym guid = nat

text \<open>A platform motion message: \<open>position\<close> has three entries, \<open>orientation\<close> four.\<close>

record platform_motion_msg =
  position :: "double \<times> double \<times> double"
  orientation :: "double \<times> double \<times> double \<times> double"

text \<open>\<open>getPosition()[0]\<close>, \<open>getOrientation()[0]\<close> and \<open>getOrientation()[1]\<close>.\<close>

definition position0 :: "platform_motion_msg \<Rightarrow> double" where
  "position0 m = fst (position m)"


definition orientation0 :: "platform_motion_msg \<Rightarrow> double" where
  "orientation0 m = fst (orientation m)"

definition orientation1 :: "platform_motion_msg \<Rightarrow> double" where
  "orientation1 m = fst (snd (orientation m))"

text \<open>A message as constructed by \<open>PlatformMotionMessage msg( *this )\<close>, before any setter.\<close>

definition PlatformMotionMessage_new :: platform_motion_msg where
  "PlatformMotionMessage_new = \<lparr>position = (0, 0, 0), orientation = (0, 0, 0, 0)\<rparr>"

text \<open>
  A received message: its source and, when \<open>getSubclass< PlatformMotionMessage >\<close>
  succeeds, its platform motion payload.
\<close>

datatype msg_body = PlatformMotionMessage platform_motion_msg | OtherMessage

record message =
  source_guid :: guid
  body :: msg_body

subsection \<open>The planner interface\<close>

text \<open>
  The calls the node makes on \<open>_searcher\<close>, over a planner state \<open>'p\<close>:
  \<open>new Planner\<close> (which chooses the goal), the goal accessors, \<open>world.getIndexFromState\<close>,
  \<open>searchAStar\<close> (which stores the path and returns the number of waypoints),
  \<open>getNextWaypoint\<close>, and \<open>world.getStateFromIndex\<close>, which leaves the coordinate pair
  in \<open>world.checkedMoveIndX\<close> and \<open>world.checkedMoveIndY\<close>, where the node reads it at
  once: the model returns that pair, as the doubles assigned to \<open>_newRobLocX\<close> and
  \<open>_newRobLocY\<close>. The arguments and results are typed as the node holds them:
  \<open>int robIndex\<close>, \<open>int newIndex\<close>, the \<open>int\<close> fields \<open>_golLocX\<close>, \<open>_golLocY\<close> and
  \<open>_numWaypoints\<close>, and the floating \<open>_robLocX\<close> and \<open>_robLocY\<close>.
\<close>

record 'p planner_ops =
  newPlanner :: 'p
  getGoalX :: "'p \<Rightarrow> c_int"
  getGoalY :: "'p \<Rightarrow> c_int"
  getIndexFromState :: "'p \<Rightarrow> double \<Rightarrow> double \<Rightarrow> c_int"
  searchAStar :: "'p \<Rightarrow> c_int \<Rightarrow> c_int \<times> 'p"
  getNextWaypoint :: "'p \<Rightarrow> c_int \<Rightarrow> c_int"
  getStateFromIndex :: "'p \<Rightarrow> c_int \<Rightarrow> double \<times> double"

subsection \<open>The node\<close>

record 'p search_node =
  node_guid :: guid
  searcher :: "'p option"
  golLocX :: c_int
  golLocY :: c_int
  robLocX :: double
  robLocY :: double
  newRobLocX :: double
  newRobLocY :: double
  numWaypoints :: c_int
  waypointCounter :: c_int

text \<open>The constructor; \<open>_searcher( )\<close> is the null pointer. The framework gives the GUID.\<close>

definition SearchNode :: "guid \<Rightarrow> 'p search_node" where
  "SearchNode g =
     \<lparr>node_guid = g,
      searcher = None,
      golLocX = INVALID_LOC,
      golLocY = INVALID_LOC,
      robLocX = double_of_int INVALID_LOC,
      robLocY = double_of_int INVALID_LOC,
      newRobLocX = double_of_int INVALID_LOC,
      newRobLocY = double_of_int INVALID_LOC,
      numWaypoints = INVALID_LOC,
      waypointCounter = INVALID_LOC\<rparr>"

text \<open>What a call of \<open>okStateEvent\<close> does, besides updating the fields.\<close>

datatype event =
    NewPlanner
  | GetGoalX
  | GetGoalY
  | GetIndexFromState double double
  | SearchAStar c_int
  | GetNextWaypoint c_int
  | GetStateFromIndex c_int
  | SendGoalToRobot
  | SendNextWaypoint c_int c_int
  | Publish platform_motion_msg
  | SleepMicro nat
  | DisconnectPolySync

text \<open>Dereferencing \<open>_searcher\<close> while it is null.\<close>

datatype error = NullSearcher

definition sendGoalToRobot :: "'p search_node \<Rightarrow> event list" where
  "sendGoalToRobot s =
     [SendGoalToRobot,
      Publish (PlatformMotionMessage_new
                 \<lparr>orientation := (double_of_int (golLocX s), double_of_int (golLocY s), 0, 0)\<rparr>)]"

definition sendNextWaypoint ::
  "'p planner_ops \<Rightarrow> 'p \<Rightarrow> 'p search_node \<Rightarrow> c_int \<Rightarrow> c_int \<Rightarrow> 'p search_node \<times> event list" where
  "sendNextWaypoint P p s newIndex waypointID =
     (let xy = getStateFromIndex P p newIndex;
          s' = s\<lparr>newRobLocX := fst xy, newRobLocY := snd xy\<rparr>
      in (s',
          [SendNextWaypoint newIndex waypointID,
           GetStateFromIndex newIndex,
           Publish (PlatformMotionMessage_new
                      \<lparr>position := (double_of_int waypointID, 0, double_of_int (numWaypoints s')),
                       orientation := (newRobLocX s', newRobLocY s', 0, 0)\<rparr>)]))"

definition okStateEvent ::
  "'p planner_ops \<Rightarrow> 'p search_node \<Rightarrow> error + 'p search_node \<times> event list" where
  "okStateEvent P s =
     (if golLocX s = INVALID_LOC \<and> golLocY s = INVALID_LOC then
        (let p = newPlanner P
         in Inr (s\<lparr>searcher := Some p, golLocX := getGoalX P p, golLocY := getGoalY P p\<rparr>,
                 [NewPlanner, GetGoalX, GetGoalY]))
      else if robLocX s = double_of_int INVALID_LOC \<or> robLocY s = double_of_int INVALID_LOC then
        Inr (s, sendGoalToRobot s @ [SleepMicro 10000])
      else if newRobLocX s = double_of_int INVALID_LOC \<and>
              newRobLocY s = double_of_int INVALID_LOC then
        (case searcher s of
           None \<Rightarrow> Inl NullSearcher
         | Some p \<Rightarrow>
             (let robIndex = getIndexFromState P p (robLocX s) (robLocY s);
                  r = searchAStar P p robIndex
              in Inr (s\<lparr>searcher := Some (snd r),
                        numWaypoints := fst r,
                        newRobLocX := double_of_int (int_of_double (robLocX s)),
                        newRobLocY := double_of_int (int_of_double (robLocY s))\<rparr>,
                      [GetIndexFromState (robLocX s) (robLocY s), SearchAStar robIndex])))
      else if newRobLocX s \<noteq> double_of_int INVALID_LOC \<or>
              newRobLocY s \<noteq> double_of_int INVALID_LOC then
        (if waypointCounter s = numWaypoints s - 2 then
           Inr (s, [DisconnectPolySync])
         else
           (case searcher s of
              None \<Rightarrow> Inl NullSearcher
            | Some p \<Rightarrow>
                (let newIndex = getNextWaypoint P p (waypointCounter s + 1);
                     r = sendNextWaypoint P p s newIndex (waypointCounter s + 1)
                 in Inr (fst r, GetNextWaypoint (waypointCounter s + 1) # snd r @ [SleepMicro 1000]))))
      else
        Inr (s, [SleepMicro 100000]))"

definition messageEvent :: "'p search_node \<Rightarrow> message \<Rightarrow> 'p search_node" where
  "messageEvent s newMsg =
     (if source_guid newMsg = node_guid s then s
      else
        (case body newMsg of
           OtherMessage \<Rightarrow> s
         | PlatformMotionMessage msg \<Rightarrow>
             if orientation0 msg \<noteq> robLocX s \<or> orientation1 msg \<noteq> robLocY s then
               s\<lparr>robLocX := orientation0 msg,
                 robLocY := orientation1 msg,
                 waypointCounter := int_of_double (position0 msg)\<rparr>
             else s))"

subsection \<open>The branches of \<open>okStateEvent\<close>\<close>

text \<open>The guards of the \<open>if\<close> ... \<open>else if\<close> chain, each with the negation of the earlier ones.\<close>

definition generating_goal :: "'p search_node \<Rightarrow> bool" where
  "generating_goal s \<longleftrightarrow> golLocX s = INVALID_LOC \<and> golLocY s = INVALID_LOC"

definition publishing_goal :: "'p search_node \<Rightarrow> bool" where
  "publishing_goal s \<longleftrightarrow>
     \<not> generating_goal s \<and>
     (robLocX s = double_of_int INVALID_LOC \<or> robLocY s = double_of_int INVALID_LOC)"

definition searching :: "'p search_node \<Rightarrow> bool" where
  "searching s \<longleftrightarrow>
     \<not> generating_goal s \<and> \<not> publishing_goal s \<and>
     newRobLocX s = double_of_int INVALID_LOC \<and> newRobLocY s = double_of_int INVALID_LOC"

definition streaming :: "'p search_node \<Rightarrow> bool" where
  "streaming s \<longleftrightarrow>
     \<not> generating_goal s \<and> \<not> publishing_goal s \<and> \<not> searching s \<and>
     (newRobLocX s \<noteq> double_of_int INVALID_LOC \<or> newRobLocY s \<noteq> double_of_int INVALID_LOC)"

text \<open>Both robot coordinates are set: the second guard is false.\<close>

definition location_known :: "'p search_node \<Rightarrow> bool" where
  "location_known s \<longleftrightarrow>
     robLocX s \<noteq> double_of_int INVALID_LOC \<and> robLocY s \<noteq> double_of_int INVALID_LOC"

text \<open>After the search both \<open>_newRobLocX\<close> and \<open>_newRobLocY\<close> are set: the third guard is false.\<close>

definition search_done :: "'p search_node \<Rightarrow> bool" where
  "search_done s \<longleftrightarrow>
     \<not> (newRobLocX s = double_of_int INVALID_LOC \<and> newRobLocY s = double_of_int INVALID_LOC)"

text \<open>
  The robot location does not convert to the sentinel pair: \<open>int(_robLocX)\<close> and
  \<open>int(_robLocY)\<close> are not both \<open>-1\<close>, so that the search leaves the new robot location
  set.
\<close>

definition start_converts :: "'p search_node \<Rightarrow> bool" where
  "start_converts s \<longleftrightarrow>
     \<not> (int_of_double (robLocX s) = INVALID_LOC \<and> int_of_double (robLocY s) = INVALID_LOC)"

subsection \<open>Runs of the node\<close>

text \<open>
  The framework calls \<open>okStateEvent\<close> and \<open>messageEvent\<close> one after the other, in an
  order the node does not choose. After \<open>disconnectPolySync\<close> it calls neither: the run
  ends there.
\<close>

datatype input = OkState | Message message

definition step ::
  "'p planner_ops \<Rightarrow> 'p search_node \<Rightarrow> input \<Rightarrow> error + 'p search_node \<times> event list" where
  "step P s i =
     (case i of
        OkState \<Rightarrow> okStateEvent P s
      | Message m \<Rightarrow> Inr (messageEvent s m, []))"

fun run ::
  "'p planner_ops \<Rightarrow> 'p search_node \<Rightarrow> input list \<Rightarrow> error + 'p search_node \<times> event list" where
  "run P s [] = Inr (s, [])"
| "run P s (i # ins) =
     (case step P s i of
        Inl e \<Rightarrow> Inl e
      | Inr (s1, evs1) \<Rightarrow>
          if DisconnectPolySync \<in> set evs1 then Inr (s1, evs1)
          else
            (case run P s1 ins of
               Inl e \<Rightarrow> Inl e
             | Inr (s2, evs2) \<Rightarrow> Inr (s2, evs1 @ evs2)))"

fun isSearchAStar :: "event \<Rightarrow> bool" where
  "isSearchAStar (SearchAStar k) = True"
| "isSearchAStar _ = False"

fun isSendNextWaypoint :: "event \<Rightarrow> bool" where
  "isSendNextWaypoint (SendNextWaypoint i w) = True"
| "isSendNextWaypoint _ = False"

text \<open>The messages published, and the sequence indices asked of \<open>getNextWaypoint\<close>.\<close>

fun published :: "event list \<Rightarrow> platform_motion_msg list" where
  "published [] = []"
| "published (Publish m # evs) = m # published evs"
| "published (_ # evs) = published evs"

fun waypoints_requested :: "event list \<Rightarrow> c_int list" where
  "waypoints_requested [] = []"
| "waypoints_requested (GetNextWaypoint i # evs) = i # waypoints_requested evs"
| "waypoints_requested (_ # evs) = waypoints_requested evs"

text \<open>A received message that gives both robot coordinates (neither is the sentinel).\<close>

definition reports_location :: "message \<Rightarrow> bool" where
  "reports_location m =
     (case body m of
        OtherMessage \<Rightarrow> True
      | PlatformMotionMessage msg \<Rightarrow>
          orientation0 msg \<noteq> double_of_int INVALID_LOC \<and>
          orientation1 msg \<noteq> double_of_int INVALID_LOC)"

text \<open>A received message whose robot coordinates do not convert to the sentinel pair.\<close>

definition report_converts :: "message \<Rightarrow> bool" where
  "report_converts m =
     (case body m of
        OtherMessage \<Rightarrow> True
      | PlatformMotionMessage msg \<Rightarrow>
          \<not> (int_of_double (orientation0 msg) = INVALID_LOC \<and>
             int_of_double (orientation1 msg) = INVALID_LOC))"

fun received :: "input list \<Rightarrow> message list" where
  "received [] = []"
| "received (Message m # ins) = m # received ins"
| "received (OkState # ins) = received ins"

subsection \<open>The robot that acknowledges every waypoint\<close>

text \<open>
  The comment in \<open>messageEvent\<close>: every received platform motion message is the current
  robot location, and the robot also reports back the last waypoint received. A robot
  with GUID \<open>r\<close> that moves to each waypoint \<open>w\<close> it is sent therefore answers with the
  waypoint's number in \<open>position[0]\<close> and the waypoint's coordinates in \<open>orientation\<close>.
\<close>

definition robot_report :: "guid \<Rightarrow> platform_motion_msg \<Rightarrow> message" where
  "robot_report r w = \<lparr>source_guid = r, body = PlatformMotionMessage w\<rparr>"

text \<open>
  The streaming loop with that robot: each call of \<open>okStateEvent\<close> is followed by the
  robot's report for what the call published, until the node disconnects. The first
  argument bounds the number of calls.
\<close>

fun stream ::
  "nat \<Rightarrow> 'p planner_ops \<Rightarrow> guid \<Rightarrow> 'p search_node \<Rightarrow> error + 'p search_node \<times> event list" where
  "stream 0 P r s = Inr (s, [])"
| "stream (Suc k) P r s =
     (case okStateEvent P s of
        Inl e \<Rightarrow> Inl e
      | Inr (s1, evs1) \<Rightarrow>
          if DisconnectPolySync \<in> set evs1 then Inr (s1, evs1)
          else
            (case stream k P r (foldl messageEvent s1 (map (robot_report r) (published evs1))) of
               Inl e \<Rightarrow> Inl e
             | Inr (s2, evs2) \<Rightarrow> Inr (s2, evs1 @ evs2)))"

text \<open>
  A whole session with that robot: the goal is generated, the robot reports its start
  cell \<open>(x, y)\<close> with waypoint number \<open>a\<close>, the node searches, and then streams.
\<close>

definition session ::
  "nat \<Rightarrow> 'p planner_ops \<Rightarrow> guid \<Rightarrow> guid \<Rightarrow> double \<times> double \<Rightarrow> double \<Rightarrow>
     error + 'p search_node \<times> event list" where
  "session k P g r xy a =
     (case run P (SearchNode g)
             [OkState,
              Message (robot_report r
                 (PlatformMotionMessage_new
                    \<lparr>position := (a, 0, 0), orientation := (fst xy, snd xy, 0, 0)\<rparr>)),
              OkState] of
        Inl e \<Rightarrow> Inl e
      | Inr (s1, evs1) \<Rightarrow>
          (case stream k P r s1 of
             Inl e \<Rightarrow> Inl e
           | Inr (s2, evs2) \<Rightarrow> Inr (s2, evs1 @ evs2)))"

text \<open>The events of a result, and its final state.\<close>

definition trace_of :: "error + 'p search_node \<times> event list \<Rightarrow> event list" where
  "trace_of res = (case res of Inl e \<Rightarrow> [] | Inr (s, evs) \<Rightarrow> evs)"

definition final_state :: "error + 'p search_node \<times> event list \<Rightarrow> 'p search_node option" where
  "final_state res = (case res of Inl e \<Rightarrow> None | Inr (s, evs) \<Rightarrow> Some s)"

subsection \<open>What the node needs of the planner\<close>

text \<open>
  The sentinel is distinct from every coordinate of the world: \<open>getStateFromIndex\<close> never
  leaves the pair \<open>(-1, -1)\<close>.
\<close>

definition coordinates_known :: "'p planner_ops \<Rightarrow> bool" where
  "coordinates_known P \<longleftrightarrow>
     (\<forall>p i. getStateFromIndex P p i \<noteq> (double_of_int INVALID_LOC, double_of_int INVALID_LOC))"

text \<open>The coordinate pair sent for sequence index \<open>i\<close> of the stored path.\<close>

definition waypoint_xy :: "'p planner_ops \<Rightarrow> 'p \<Rightarrow> c_int \<Rightarrow> double \<times> double" where
  "waypoint_xy P p i = getStateFromIndex P p (getNextWaypoint P p i)"

definition waypoint_msg :: "'p planner_ops \<Rightarrow> 'p \<Rightarrow> c_int \<Rightarrow> c_int \<Rightarrow> platform_motion_msg" where
  "waypoint_msg P p n i =
     \<lparr>position = (double_of_int i, 0, double_of_int n),
      orientation = (fst (waypoint_xy P p i), snd (waypoint_xy P p i), 0, 0)\<rparr>"

text \<open>What the streaming branch does for sequence index \<open>i\<close>, with \<open>n\<close> waypoints in all.\<close>

definition waypoint_events :: "'p planner_ops \<Rightarrow> 'p \<Rightarrow> c_int \<Rightarrow> c_int \<Rightarrow> event list" where
  "waypoint_events P p n i =
     [GetNextWaypoint i,
      SendNextWaypoint (getNextWaypoint P p i) i,
      GetStateFromIndex (getNextWaypoint P p i),
      Publish (waypoint_msg P p n i),
      SleepMicro 1000]"

text \<open>
  The stored path is a walk, from the waypoint after the acknowledged one up to sequence
  index \<open>_numWaypoints - 2\<close>: each of these waypoints has known coordinates and is another
  cell than the one before it, which for the first of them is the robot's cell.
\<close>

definition path_ahead :: "'p planner_ops \<Rightarrow> 'p \<Rightarrow> 'p search_node \<Rightarrow> bool" where
  "path_ahead P p s \<longleftrightarrow>
     (\<forall>k\<in>set [sint (waypointCounter s) + 1..sint (numWaypoints s) - 2].
        fst (waypoint_xy P p (word_of_int k)) \<noteq> double_of_int INVALID_LOC \<and>
        snd (waypoint_xy P p (word_of_int k)) \<noteq> double_of_int INVALID_LOC \<and>
        waypoint_xy P p (word_of_int k) \<noteq>
          (if k = sint (waypointCounter s) + 1 then (robLocX s, robLocY s)
           else waypoint_xy P p (word_of_int (k - 1))))"

subsection \<open>A planner for a corridor\<close>

text \<open>
  Modelled from the spec: the class \<open>Planner\<close> and its \<open>world\<close> (their sources are not in
  \<open>SearchNode.cpp\<close>), for a world of one row of five free cells. A grid index is
  \<open>y \<cdot> width + x\<close>; the search stores the shortest path from the start index to the
  goal, both ends included, and returns its length; waypoint \<open>i\<close> is \<open>path[i]\<close>. The
  node does not check its arguments: outside the path this planner answers \<open>-1\<close>.
\<close>

record corridor =
  goal_cell :: int
  path :: "int list"

definition corridor_width :: int where
  "corridor_width = 5"

definition corridor_path :: "int \<Rightarrow> int \<Rightarrow> int list" where
  "corridor_path i g = (if i \<le> g then [i..g] else rev [g..i])"

definition corridor_index :: "corridor \<Rightarrow> double \<Rightarrow> double \<Rightarrow> c_int" where
  "corridor_index p x y = word_of_int (trunc y * corridor_width + trunc x)"

definition corridor_search :: "corridor \<Rightarrow> c_int \<Rightarrow> c_int \<times> corridor" where
  "corridor_search p i =
     (let w = corridor_path (sint i) (goal_cell p)
      in (word_of_int (int (length w)), p\<lparr>path := w\<rparr>))"

definition corridor_waypoint :: "corridor \<Rightarrow> c_int \<Rightarrow> c_int" where
  "corridor_waypoint p k =
     (if 0 \<le> sint k \<and> sint k < int (length (path p)) then word_of_int (path p ! nat (sint k))
      else - 1)"

definition corridor_state :: "corridor \<Rightarrow> c_int \<Rightarrow> double \<times> double" where
  "corridor_state p i = (of_int (sint i mod corridor_width), of_int (sint i div corridor_width))"

definition corridor_planner :: "int \<Rightarrow> corridor planner_ops" where
  "corridor_planner g =
     \<lparr>newPlanner = \<lparr>goal_cell = g, path = []\<rparr>,
      getGoalX = (\<lambda>p. word_of_int (goal_cell p)),
      getGoalY = (\<lambda>p. 0),
      getIndexFromState = corridor_index,
      searchAStar = corridor_search,
      getNextWaypoint = corridor_waypoint,
      getStateFromIndex = corridor_state\<rparr>"

text \<open>
  The planner of the corridor with a world that answers the sentinel pair for every
  index: what \<open>coordinates_known\<close> excludes.
\<close>

definition lost_planner :: "corridor planner_ops" where
  "lost_planner =
     (corridor_planner 4)
       \<lparr>getStateFromIndex := (\<lambda>p i. (double_of_int INVALID_LOC, double_of_int INVALID_LOC))\<rparr>"

text \<open>
  The node with GUID 1 and the robot with GUID 2 in the corridor with the goal in cell 4.
  \<open>corridor_located\<close>: the goal is generated and the robot has reported its start, cell 1.
  \<open>corridor_searched\<close>: after the search. \<open>corridor_arrived\<close>: the robot has acknowledged
  waypoints 1 and 2. \<open>corridor_at_goal\<close>: the goal is generated and the robot has reported
  the goal cell as its start, with waypoint number \<open>-1\<close>.
\<close>

definition start_report :: "double \<Rightarrow> double \<Rightarrow> double \<Rightarrow> message" where
  "start_report x y a =
     robot_report 2 (PlatformMotionMessage_new\<lparr>position := (a, 0, 0), orientation := (x, y, 0, 0)\<rparr>)"

definition corridor_located :: "corridor search_node" where
  "corridor_located =
     \<lparr>node_guid = 1, searcher = Some \<lparr>goal_cell = 4, path = []\<rparr>,
      golLocX = 4, golLocY = 0, robLocX = 1, robLocY = 0,
      newRobLocX = - 1, newRobLocY = - 1, numWaypoints = - 1, waypointCounter = 0\<rparr>"

definition corridor_searched :: "corridor search_node" where
  "corridor_searched =
     \<lparr>node_guid = 1, searcher = Some \<lparr>goal_cell = 4, path = [1, 2, 3, 4]\<rparr>,
      golLocX = 4, golLocY = 0, robLocX = 1, robLocY = 0,
      newRobLocX = 1, newRobLocY = 0, numWaypoints = 4, waypointCounter = 0\<rparr>"

definition corridor_arrived :: "corridor search_node" where
  "corridor_arrived =
     \<lparr>node_guid = 1, searcher = Some \<lparr>goal_cell = 4, path = [1, 2, 3, 4]\<rparr>,
      golLocX = 4, golLocY = 0, robLocX = 3, robLocY = 0,
      newRobLocX = 3, newRobLocY = 0, numWaypoints = 4, waypointCounter = 2\<rparr>"

definition corridor_at_goal :: "corridor search_node" where
  "corridor_at_goal =
     \<lparr>node_guid = 1, searcher = Some \<lparr>goal_cell = 4, path = []\<rparr>,
      golLocX = 4, golLocY = 0, robLocX = 4, robLocY = 0,
      newRobLocX = - 1, newRobLocY = - 1, numWaypoints = - 1, waypointCounter = - 1\<rparr>"

section \<open>Conversions\<close>

lemma word_of_int_sint32 [simp]: "word_of_int (sint w) = (w :: c_int)"
  by simp

lemma sint_inject32: "sint a = sint b \<longleftrightarrow> a = (b :: c_int)"
  by (metis word_of_int_sint32)

lemma sint_word_of_int32:
  "- (2 ^ 31) \<le> k \<Longrightarrow> k < 2 ^ 31 \<Longrightarrow> sint (word_of_int k :: c_int) = k"
  by (simp add: sint_sbintrunc' signed_take_bit_int_eq_self)

lemma sint_range32: "- (2 ^ 31) \<le> sint (w :: c_int)" "sint (w :: c_int) < 2 ^ 31"
  using sint_ge [of w] sint_lt [of w] by simp_all

lemma sint_succ32: "sint (c :: c_int) < sint (n :: c_int) \<Longrightarrow> sint (c + 1) = sint c + 1"
proof -
  assume "sint c < sint n"
  with sint_range32 [of n] sint_range32 [of c]
  have "- (2 ^ 31) \<le> sint c + 1" "sint c + 1 < 2 ^ 31" by simp_all
  then have "sint (word_of_int (sint c + 1) :: c_int) = sint c + 1"
    by (rule sint_word_of_int32)
  then show ?thesis by simp
qed

lemma trunc_of_int [simp]: "trunc (of_int k) = k"
  by (simp add: trunc_def)

lemma int_of_double_inverse [simp]: "int_of_double (double_of_int w) = w"
  unfolding int_of_double_def double_of_int_def trunc_of_int by (rule word_of_int_sint32)

lemma double_of_int_inject [simp]: "double_of_int a = double_of_int b \<longleftrightarrow> a = b"
  unfolding double_of_int_def of_int_eq_iff by (rule sint_inject32)

lemma double_of_INVALID_LOC: "double_of_int INVALID_LOC = - 1"
  by (simp add: double_of_int_def INVALID_LOC_def)

lemma double_of_int_numeral_simps [simp]:
  "double_of_int 0 = 0" "double_of_int 1 = 1"
  by (simp_all add: double_of_int_def)


section \<open>One call of \<open>okStateEvent\<close>\<close>

text \<open>The four guards cover every state: the final \<open>else\<close> of the source is never taken.\<close>

lemma branches: "generating_goal s \<or> publishing_goal s \<or> searching s \<or> streaming s"
  by (auto simp: generating_goal_def publishing_goal_def searching_def streaming_def)

lemma okStateEvent_generating:
  "generating_goal s \<Longrightarrow>
   okStateEvent P s =
     Inr (s\<lparr>searcher := Some (newPlanner P),
             golLocX := getGoalX P (newPlanner P),
             golLocY := getGoalY P (newPlanner P)\<rparr>,
          [NewPlanner, GetGoalX, GetGoalY])"
  by (simp add: okStateEvent_def generating_goal_def Let_def)

lemma okStateEvent_publishing:
  "publishing_goal s \<Longrightarrow> okStateEvent P s = Inr (s, sendGoalToRobot s @ [SleepMicro 10000])"
  by (auto simp: okStateEvent_def generating_goal_def publishing_goal_def)

lemma okStateEvent_searching:
  "searching s \<Longrightarrow> searcher s = Some p \<Longrightarrow>
   okStateEvent P s =
     Inr (s\<lparr>searcher := Some (snd (searchAStar P p (getIndexFromState P p (robLocX s) (robLocY s)))),
             numWaypoints := fst (searchAStar P p (getIndexFromState P p (robLocX s) (robLocY s))),
             newRobLocX := double_of_int (int_of_double (robLocX s)),
             newRobLocY := double_of_int (int_of_double (robLocY s))\<rparr>,
          [GetIndexFromState (robLocX s) (robLocY s),
           SearchAStar (getIndexFromState P p (robLocX s) (robLocY s))])"
  by (auto simp: okStateEvent_def generating_goal_def publishing_goal_def searching_def Let_def)

lemma okStateEvent_searching_null:
  "searching s \<Longrightarrow> searcher s = None \<Longrightarrow> okStateEvent P s = Inl NullSearcher"
  by (auto simp: okStateEvent_def generating_goal_def publishing_goal_def searching_def Let_def)

lemma okStateEvent_arrived:
  "streaming s \<Longrightarrow> waypointCounter s = numWaypoints s - 2 \<Longrightarrow>
   okStateEvent P s = Inr (s, [DisconnectPolySync])"
  by (auto simp: okStateEvent_def generating_goal_def publishing_goal_def searching_def
      streaming_def)

lemma okStateEvent_streaming:
  "streaming s \<Longrightarrow> waypointCounter s \<noteq> numWaypoints s - 2 \<Longrightarrow> searcher s = Some p \<Longrightarrow>
   okStateEvent P s =
     Inr (s\<lparr>newRobLocX := fst (waypoint_xy P p (waypointCounter s + 1)),
             newRobLocY := snd (waypoint_xy P p (waypointCounter s + 1))\<rparr>,
          [GetNextWaypoint (waypointCounter s + 1),
           SendNextWaypoint (getNextWaypoint P p (waypointCounter s + 1)) (waypointCounter s + 1),
           GetStateFromIndex (getNextWaypoint P p (waypointCounter s + 1)),
           Publish (waypoint_msg P p (numWaypoints s) (waypointCounter s + 1)),
           SleepMicro 1000])"
  by (auto simp: okStateEvent_def generating_goal_def publishing_goal_def searching_def
      streaming_def sendNextWaypoint_def waypoint_xy_def waypoint_msg_def
      PlatformMotionMessage_new_def Let_def)

lemma okStateEvent_streaming_null:
  "streaming s \<Longrightarrow> waypointCounter s \<noteq> numWaypoints s - 2 \<Longrightarrow> searcher s = None \<Longrightarrow>
   okStateEvent P s = Inl NullSearcher"
  by (auto simp: okStateEvent_def generating_goal_def publishing_goal_def searching_def
      streaming_def)

text \<open>The five ways a call can return, as a case rule.\<close>

lemma okStateEvent_cases:
  assumes "okStateEvent P s = Inr (s', evs)"
  obtains
    (generating) "generating_goal s"
      "s' = s\<lparr>searcher := Some (newPlanner P), golLocX := getGoalX P (newPlanner P),
              golLocY := getGoalY P (newPlanner P)\<rparr>"
      "evs = [NewPlanner, GetGoalX, GetGoalY]"
  | (publishing) "publishing_goal s" "s' = s" "evs = sendGoalToRobot s @ [SleepMicro 10000]"
  | (searching) p where "searching s" "searcher s = Some p"
      "s' = s\<lparr>searcher := Some (snd (searchAStar P p (getIndexFromState P p (robLocX s) (robLocY s)))),
             numWaypoints := fst (searchAStar P p (getIndexFromState P p (robLocX s) (robLocY s))),
             newRobLocX := double_of_int (int_of_double (robLocX s)),
             newRobLocY := double_of_int (int_of_double (robLocY s))\<rparr>"
      "evs = [GetIndexFromState (robLocX s) (robLocY s),
           SearchAStar (getIndexFromState P p (robLocX s) (robLocY s))]"
  | (arrived) "streaming s" "waypointCounter s = numWaypoints s - 2" "s' = s"
      "evs = [DisconnectPolySync]"
  | (streaming) p where "streaming s" "waypointCounter s \<noteq> numWaypoints s - 2"
      "searcher s = Some p"
      "s' = s\<lparr>newRobLocX := fst (waypoint_xy P p (waypointCounter s + 1)),
             newRobLocY := snd (waypoint_xy P p (waypointCounter s + 1))\<rparr>"
      "evs = [GetNextWaypoint (waypointCounter s + 1),
           SendNextWaypoint (getNextWaypoint P p (waypointCounter s + 1)) (waypointCounter s + 1),
           GetStateFromIndex (getNextWaypoint P p (waypointCounter s + 1)),
           Publish (waypoint_msg P p (numWaypoints s) (waypointCounter s + 1)),
           SleepMicro 1000]"
proof -
  consider "generating_goal s" | "publishing_goal s" | "searching s" | "streaming s"
    using branches by blast
  then show thesis
  proof cases
    case 1
    from assms have "s' = fst (projr (okStateEvent P s))" "evs = snd (projr (okStateEvent P s))"
      by simp_all
    then show ?thesis
      unfolding okStateEvent_generating [OF 1] by (intro generating [OF 1]) simp_all
  next
    case 2
    from assms have "s' = fst (projr (okStateEvent P s))" "evs = snd (projr (okStateEvent P s))"
      by simp_all
    then show ?thesis
      unfolding okStateEvent_publishing [OF 2] by (intro publishing [OF 2]) simp_all
  next
    case 3
    from assms obtain p where p: "searcher s = Some p"
      using okStateEvent_searching_null [OF 3] by (cases "searcher s") auto
    from assms have "s' = fst (projr (okStateEvent P s))" "evs = snd (projr (okStateEvent P s))"
      by simp_all
    then show ?thesis
      unfolding okStateEvent_searching [OF 3 p] by (intro searching [OF 3 p]) simp_all
  next
    case 4
    show ?thesis
    proof (cases "waypointCounter s = numWaypoints s - 2")
      case True
      from assms have "s' = fst (projr (okStateEvent P s))" "evs = snd (projr (okStateEvent P s))"
        by simp_all
      then show ?thesis
        unfolding okStateEvent_arrived [OF 4 True] by (intro arrived [OF 4 True]) simp_all
    next
      case False
      from assms obtain p where p: "searcher s = Some p"
        using okStateEvent_streaming_null [OF 4 False] by (cases "searcher s") auto
      from assms have "s' = fst (projr (okStateEvent P s))" "evs = snd (projr (okStateEvent P s))"
        by simp_all
      then show ?thesis
        unfolding okStateEvent_streaming [OF 4 False p] by (intro streaming [OF 4 False p]) simp_all
    qed
  qed
qed

lemma messageEvent_frame [simp]:
  "node_guid (messageEvent s m) = node_guid s"
  "searcher (messageEvent s m) = searcher s"
  "golLocX (messageEvent s m) = golLocX s"
  "golLocY (messageEvent s m) = golLocY s"
  "newRobLocX (messageEvent s m) = newRobLocX s"
  "newRobLocY (messageEvent s m) = newRobLocY s"
  "numWaypoints (messageEvent s m) = numWaypoints s"
  by (simp_all add: messageEvent_def split: msg_body.splits)

lemma okStateEvent_node_guid:
  "okStateEvent P s = Inr (s', evs) \<Longrightarrow> node_guid s' = node_guid s"
  by (erule okStateEvent_cases) simp_all

lemma okStateEvent_robLoc:
  "okStateEvent P s = Inr (s', evs) \<Longrightarrow> robLocX s' = robLocX s \<and> robLocY s' = robLocY s"
  by (erule okStateEvent_cases) simp_all

lemma event_of_branch:
  assumes "okStateEvent P s = Inr (s', evs)"
  shows "(NewPlanner \<in> set evs \<longleftrightarrow> generating_goal s) \<and>
         (SendGoalToRobot \<in> set evs \<longleftrightarrow> publishing_goal s) \<and>
         ((\<exists>e\<in>set evs. isSearchAStar e) \<longleftrightarrow> searching s) \<and>
         ((\<exists>e\<in>set evs. isSendNextWaypoint e) \<longleftrightarrow>
            streaming s \<and> waypointCounter s \<noteq> numWaypoints s - 2)"
  using assms
proof (cases rule: okStateEvent_cases)
  case generating
  then show ?thesis by (auto simp: publishing_goal_def searching_def streaming_def)
next
  case publishing
  then show ?thesis by (auto simp: publishing_goal_def searching_def streaming_def sendGoalToRobot_def)
next
  case (searching p)
  then show ?thesis by (auto simp: searching_def streaming_def)
next
  case arrived
  then show ?thesis by (auto simp: streaming_def)
next
  case (streaming p)
  then show ?thesis by (auto simp: streaming_def)
qed

section \<open>Runs\<close>

lemma step_OkState [simp]: "step P s OkState = okStateEvent P s"
  by (simp add: step_def)

lemma step_Message [simp]: "step P s (Message m) = Inr (messageEvent s m, [])"
  by (simp add: step_def)

lemma run_Cons_cases:
  assumes "run P s (i # ins) = Inr (s', evs)"
  obtains
    (last) "step P s i = Inr (s', evs)" "DisconnectPolySync \<in> set evs"
  | (more) s1 evs1 evs2 where "step P s i = Inr (s1, evs1)" "DisconnectPolySync \<notin> set evs1"
      "run P s1 ins = Inr (s', evs2)" "evs = evs1 @ evs2"
  using assms by (auto split: sum.splits if_splits prod.splits)

text \<open>An invariant of the state, and a property of every event, along a run.\<close>

lemma run_invariant:
  assumes "run P s ins = Inr (s', evs)" and "I s"
    and "\<And>s i s1 evs1. I s \<Longrightarrow> i \<in> set ins \<Longrightarrow> step P s i = Inr (s1, evs1) \<Longrightarrow>
           I s1 \<and> (\<forall>e\<in>set evs1. Q e)"
  shows "I s' \<and> (\<forall>e\<in>set evs. Q e)"
  using assms
proof (induction ins arbitrary: s s' evs)
  case Nil
  then show ?case by simp
next
  case (Cons i ins)
  from Cons.prems(1) show ?case
  proof (cases rule: run_Cons_cases)
    case last
    with Cons.prems(2) Cons.prems(3) [of s i s' evs] show ?thesis by simp
  next
    case (more s1 evs1 evs2)
    with Cons.prems(2) Cons.prems(3) [of s i s1 evs1]
    have 1: "I s1" "\<forall>e\<in>set evs1. Q e" by simp_all
    have "I s' \<and> (\<forall>e\<in>set evs2. Q e)"
    proof (rule Cons.IH [OF more(3) 1(1)])
      fix t j t1 evs'
      assume "I t" "j \<in> set ins" "step P t j = Inr (t1, evs')"
      then show "I t1 \<and> (\<forall>e\<in>set evs'. Q e)"
        using Cons.prems(3) [of t j t1 evs'] by simp
    qed
    with 1 more(4) show ?thesis by auto
  qed
qed

lemma run_events:
  assumes "run P s ins = Inr (s', evs)"
    and "\<And>s s1 evs1. okStateEvent P s = Inr (s1, evs1) \<Longrightarrow> \<forall>e\<in>set evs1. Q e"
  shows "\<forall>e\<in>set evs. Q e"
proof -
  have "True \<and> (\<forall>e\<in>set evs. Q e)"
  proof (rule run_invariant [OF assms(1), where I = "\<lambda>s. True"])
    fix s i s1 evs1
    assume "step P s i = Inr (s1, evs1)"
    then show "True \<and> (\<forall>e\<in>set evs1. Q e)"
      using assms(2) [of s s1 evs1] by (cases i) auto
  qed simp
  then show ?thesis by simp
qed

lemma search_done_step:
  assumes "coordinates_known P" "search_done s" "step P s i = Inr (s1, evs1)"
  shows "search_done s1 \<and> (\<forall>e\<in>set evs1. \<not> isSearchAStar e)"
proof (cases i)
  case OkState
  with assms(3) have "okStateEvent P s = Inr (s1, evs1)" by simp
  then show ?thesis
  proof (cases rule: okStateEvent_cases)
    case generating
    with assms(2) show ?thesis by (simp add: search_done_def)
  next
    case publishing
    with assms(2) show ?thesis by (simp add: search_done_def sendGoalToRobot_def)
  next
    case (searching p)
    with assms(2) show ?thesis by (simp add: search_done_def searching_def)
  next
    case arrived
    with assms(2) show ?thesis by simp
  next
    case (streaming p)
    have "getStateFromIndex P p (getNextWaypoint P p (waypointCounter s + 1)) \<noteq>
            (double_of_int INVALID_LOC, double_of_int INVALID_LOC)"
      using assms(1) by (simp add: coordinates_known_def)
    then have "\<not> (fst (waypoint_xy P p (waypointCounter s + 1)) = double_of_int INVALID_LOC \<and>
                 snd (waypoint_xy P p (waypointCounter s + 1)) = double_of_int INVALID_LOC)"
      by (simp add: waypoint_xy_def prod_eq_iff)
    with streaming show ?thesis by (simp add: search_done_def)
  qed
next
  case (Message m)
  with assms(2,3) show ?thesis by (auto simp: search_done_def)
qed

lemma no_search_after_search:
  assumes "coordinates_known P" "search_done s" "run P s ins = Inr (s', evs)"
  shows "filter isSearchAStar evs = []"
proof -
  have "search_done s' \<and> (\<forall>e\<in>set evs. \<not> isSearchAStar e)"
    using assms(3,2) by (rule run_invariant) (rule search_done_step [OF assms(1)])
  then show ?thesis by (simp add: filter_empty_conv)
qed

lemma received_mem: "Message m \<in> set ins \<Longrightarrow> m \<in> set (received ins)"
  by (induction ins rule: received.induct) auto

text \<open>
  The search leaves the new robot location set when the robot location converts, and a
  location taken from a report that converts does.
\<close>

lemma at_most_one_search:
  assumes "coordinates_known P"
    and "\<forall>m\<in>set (received ins). source_guid m \<noteq> node_guid s \<longrightarrow> report_converts m"
    and "location_known s \<longrightarrow> start_converts s"
    and "run P s ins = Inr (s', evs)"
  shows "length (filter isSearchAStar evs) \<le> 1"
  using assms(2-)
proof (induction ins arbitrary: s s' evs)
  case Nil
  then show ?case by simp
next
  case (Cons i ins)
  have one: "length (filter isSearchAStar evs1) \<le> 1 \<and>
             ((\<exists>e\<in>set evs1. isSearchAStar e) \<longrightarrow> search_done s1) \<and>
             node_guid s1 = node_guid s \<and>
             (location_known s1 \<longrightarrow> start_converts s1)"
    if "step P s i = Inr (s1, evs1)" for s1 evs1
  proof (cases i)
    case OkState
    with that have "okStateEvent P s = Inr (s1, evs1)" by simp
    then show ?thesis using Cons.prems(2)
      by (cases rule: okStateEvent_cases)
        (auto simp: sendGoalToRobot_def search_done_def searching_def publishing_goal_def
          location_known_def start_converts_def)
  next
    case (Message m)
    with Cons.prems(1) have "source_guid m \<noteq> node_guid s \<longrightarrow> report_converts m" by simp
    with that Message Cons.prems(2) show ?thesis
      by (auto simp: messageEvent_def report_converts_def start_converts_def location_known_def
          split: msg_body.splits if_splits)
  qed
  have rest: "\<forall>m\<in>set (received ins). source_guid m \<noteq> node_guid s \<longrightarrow> report_converts m"
    using Cons.prems(1) by (cases i) auto
  from Cons.prems(3) show ?case
  proof (cases rule: run_Cons_cases)
    case last
    with one [of s' evs] show ?thesis by simp
  next
    case (more s1 evs1 evs2)
    show ?thesis
    proof (cases "\<exists>e\<in>set evs1. isSearchAStar e")
      case True
      with one [OF more(1)] have "search_done s1" by simp
      then have "filter isSearchAStar evs2 = []"
        using assms(1) more(3) no_search_after_search by blast
      with one [OF more(1)] more(4) show ?thesis by simp
    next
      case False
      then have "filter isSearchAStar evs1 = []" by (simp add: filter_empty_conv)
      moreover have "length (filter isSearchAStar evs2) \<le> 1"
        using rest one [OF more(1)] more(3) by (intro Cons.IH) simp_all
      ultimately show ?thesis using more(4) by simp
    qed
  qed
qed

lemma goal_generated_before_search:
  assumes "generating_goal s" "run P s ins = Inr (s', evs)" "\<exists>e\<in>set evs. isSearchAStar e"
  shows "NewPlanner \<in> set (takeWhile (\<lambda>e. \<not> isSearchAStar e) evs)"
  using assms
proof (induction ins arbitrary: s s' evs)
  case Nil
  then show ?case by simp
next
  case (Cons i ins)
  show ?case
  proof (cases i)
    case OkState
    have ok: "okStateEvent P s =
        Inr (s\<lparr>searcher := Some (newPlanner P), golLocX := getGoalX P (newPlanner P),
                golLocY := getGoalY P (newPlanner P)\<rparr>, [NewPlanner, GetGoalX, GetGoalY])"
      using Cons.prems(1) by (rule okStateEvent_generating)
    with Cons.prems(2) OkState obtain evs2 where "evs = [NewPlanner, GetGoalX, GetGoalY] @ evs2"
      by (auto split: sum.splits)
    then show ?thesis by simp
  next
    case (Message m)
    have g: "generating_goal (messageEvent s m)"
      using Cons.prems(1) by (simp add: generating_goal_def)
    from Cons.prems(2) Message have "run P (messageEvent s m) ins = Inr (s', evs)"
      by (auto split: sum.splits)
    from Cons.IH [OF g this Cons.prems(3)] show ?thesis .
  qed
qed

lemma no_waypoint_before_search:
  assumes "\<not> search_done s" "run P s ins = Inr (s', evs)"
  shows "\<forall>e\<in>set (takeWhile (\<lambda>e. \<not> isSearchAStar e) evs). \<not> isSendNextWaypoint e"
  using assms
proof (induction ins arbitrary: s s' evs)
  case Nil
  then show ?case by simp
next
  case (Cons i ins)
  have one: "(\<forall>e\<in>set evs1. \<not> isSendNextWaypoint e) \<and>
             ((\<forall>e\<in>set evs1. \<not> isSearchAStar e) \<longrightarrow> \<not> search_done s1) \<and>
             set (takeWhile (\<lambda>e. \<not> isSearchAStar e) evs1) \<subseteq> set evs1"
    if "step P s i = Inr (s1, evs1)" for s1 evs1
  proof (cases i)
    case OkState
    with that have "okStateEvent P s = Inr (s1, evs1)" by simp
    then show ?thesis using Cons.prems(1)
      by (cases rule: okStateEvent_cases)
        (auto simp: sendGoalToRobot_def search_done_def streaming_def searching_def
          dest: set_takeWhileD)
  next
    case (Message m)
    with that Cons.prems(1) show ?thesis by (auto simp: search_done_def)
  qed
  from Cons.prems(2) show ?case
  proof (cases rule: run_Cons_cases)
    case last
    with one [of s' evs] show ?thesis by (auto dest: set_takeWhileD)
  next
    case (more s1 evs1 evs2)
    show ?thesis
    proof (cases "\<forall>e\<in>set evs1. \<not> isSearchAStar e")
      case True
      with one [OF more(1)] have "\<not> search_done s1" by simp
      from Cons.IH [OF this more(3)] one [OF more(1)] more(4) True show ?thesis
        by (auto simp: takeWhile_append)
    next
      case False
      then have "takeWhile (\<lambda>e. \<not> isSearchAStar e) (evs1 @ evs2) =
                 takeWhile (\<lambda>e. \<not> isSearchAStar e) evs1"
        by (auto simp: takeWhile_append)
      with one [OF more(1)] more(4) show ?thesis by (auto dest: set_takeWhileD)
    qed
  qed
qed

lemma no_goal_before_generation:
  assumes "generating_goal s" "run P s ins = Inr (s', evs)"
  shows "SendGoalToRobot \<notin> set (takeWhile (\<lambda>e. e \<noteq> NewPlanner) evs)"
  using assms
proof (induction ins arbitrary: s s' evs)
  case Nil
  then show ?case by simp
next
  case (Cons i ins)
  show ?case
  proof (cases i)
    case OkState
    have ok: "okStateEvent P s =
        Inr (s\<lparr>searcher := Some (newPlanner P), golLocX := getGoalX P (newPlanner P),
                golLocY := getGoalY P (newPlanner P)\<rparr>, [NewPlanner, GetGoalX, GetGoalY])"
      using Cons.prems(1) by (rule okStateEvent_generating)
    with Cons.prems(2) OkState obtain evs2 where "evs = [NewPlanner, GetGoalX, GetGoalY] @ evs2"
      by (auto split: sum.splits)
    then show ?thesis by simp
  next
    case (Message m)
    have g: "generating_goal (messageEvent s m)"
      using Cons.prems(1) by (simp add: generating_goal_def)
    from Cons.prems(2) Message have "run P (messageEvent s m) ins = Inr (s', evs)"
      by (auto split: sum.splits)
    from Cons.IH [OF g this] show ?thesis .
  qed
qed

lemma SearchNode_fresh:
  "generating_goal (SearchNode g)" "\<not> search_done (SearchNode g)"
  by (simp_all add: SearchNode_def generating_goal_def search_done_def)

text \<open>
  From its construction on, the node never dereferences a null \<open>_searcher\<close>: every run
  returns a state and a trace, so the statements below about the trace of a run are
  about every run.
\<close>

lemma okStateEvent_total:
  assumes "generating_goal s \<or> searcher s \<noteq> None"
  shows "\<exists>s' evs. okStateEvent P s = Inr (s', evs) \<and>
                   (generating_goal s' \<or> searcher s' \<noteq> None)"
proof -
  consider "generating_goal s" | "publishing_goal s" | "searching s" | "streaming s"
    using branches by blast
  then show ?thesis
  proof cases
    case 1
    then show ?thesis by (simp add: okStateEvent_generating)
  next
    case 2
    with assms show ?thesis by (simp add: okStateEvent_publishing)
  next
    case 3
    with assms obtain p where "searcher s = Some p" by (auto simp: searching_def)
    with 3 show ?thesis by (simp add: okStateEvent_searching)
  next
    case 4
    with assms obtain p where p: "searcher s = Some p" by (auto simp: streaming_def)
    show ?thesis
    proof (cases "waypointCounter s = numWaypoints s - 2")
      case True
      with 4 p show ?thesis by (simp add: okStateEvent_arrived)
    next
      case False
      with 4 p show ?thesis by (simp add: okStateEvent_streaming)
    qed
  qed
qed

lemma run_total:
  assumes "generating_goal s \<or> searcher s \<noteq> None"
  shows "\<exists>s' evs. run P s ins = Inr (s', evs)"
  using assms
proof (induction ins arbitrary: s)
  case Nil
  then show ?case by simp
next
  case (Cons i ins)
  have "\<exists>s1 evs1. step P s i = Inr (s1, evs1) \<and> (generating_goal s1 \<or> searcher s1 \<noteq> None)"
  proof (cases i)
    case OkState
    with okStateEvent_total [OF Cons.prems, of P] show ?thesis by auto
  next
    case (Message m)
    with Cons.prems show ?thesis by (auto simp: generating_goal_def)
  qed
  then obtain s1 evs1 where 1: "step P s i = Inr (s1, evs1)"
    and "generating_goal s1 \<or> searcher s1 \<noteq> None" by blast
  from Cons.IH [OF this(2)] obtain s' evs where "run P s1 ins = Inr (s', evs)" by blast
  with 1 show ?case by simp
qed

lemma run_SearchNode_total: "\<exists>s evs. run P (SearchNode g) ins = Inr (s, evs)"
  by (rule run_total) (simp add: SearchNode_fresh)

section \<open>The corridor session\<close>

text \<open>The sample states are the states of the node in the corridor session.\<close>

lemma corridor_located_reached:
  "run (corridor_planner 4) (SearchNode 1) [OkState, Message (start_report 1 0 0)] =
     Inr (corridor_located, [NewPlanner, GetGoalX, GetGoalY])"
  by code_simp

lemma corridor_searched_reached:
  "run (corridor_planner 4) (SearchNode 1) [OkState, Message (start_report 1 0 0), OkState] =
     Inr (corridor_searched,
          [NewPlanner, GetGoalX, GetGoalY, GetIndexFromState 1 0, SearchAStar 1])"
  by code_simp

lemma corridor_at_goal_reached:
  "run (corridor_planner 4) (SearchNode 1) [OkState, Message (start_report 4 0 (- 1))] =
     Inr (corridor_at_goal, [NewPlanner, GetGoalX, GetGoalY])"
  by code_simp

lemma corridor_arrived_reached:
  "final_state (session 2 (corridor_planner 4) 1 2 (1, 0) 0) = Some corridor_arrived"
  by code_simp


lemma corridor_goal_published:
  "run (corridor_planner 4) (SearchNode 1)
     [OkState, OkState, Message (start_report 1 0 0), OkState] =
   Inr (corridor_searched,
        [NewPlanner, GetGoalX, GetGoalY,
         SendGoalToRobot, Publish \<lparr>position = (0, 0, 0), orientation = (4, 0, 0, 0)\<rparr>,
         SleepMicro 10000,
         GetIndexFromState 1 0, SearchAStar 1])"
  by code_simp

text \<open>Single calls in the sample states.\<close>

lemma corridor_located_search:
  "okStateEvent (corridor_planner 4) corridor_located =
     Inr (corridor_searched, [GetIndexFromState 1 0, SearchAStar 1])"
  by code_simp


lemma corridor_branches:
  "searching corridor_located" "streaming corridor_searched" "streaming corridor_arrived"
  "searching corridor_at_goal"
  by code_simp+

lemma corridor_coordinates_known: "coordinates_known (corridor_planner g)"
proof -
  have "(of_int (i mod 5) :: rat) \<noteq> of_int (- 1)" for i :: int
    using pos_mod_sign [of 5 i] by (simp only: of_int_eq_iff)
  then show ?thesis
    by (simp add: coordinates_known_def corridor_planner_def corridor_state_def
        corridor_width_def double_of_INVALID_LOC)
qed

section \<open>The constructor\<close>

text \<open>
  C5. The constructor sets each of the eight location and counter fields to the sentinel
  \<open>INVALID_LOC\<close>, which is \<open>-1\<close>: the \<open>int\<close> fields hold it as it is, the floating ones as
  the double \<open>-1\<close>.
\<close>

theorem SearchNode_fields_invalid:
  "golLocX (SearchNode g) = INVALID_LOC \<and> golLocY (SearchNode g) = INVALID_LOC \<and>
   robLocX (SearchNode g) = double_of_int INVALID_LOC \<and>
   robLocY (SearchNode g) = double_of_int INVALID_LOC \<and>
   newRobLocX (SearchNode g) = double_of_int INVALID_LOC \<and>
   newRobLocY (SearchNode g) = double_of_int INVALID_LOC \<and>
   numWaypoints (SearchNode g) = INVALID_LOC \<and> waypointCounter (SearchNode g) = INVALID_LOC \<and>
   INVALID_LOC = - 1 \<and> sint INVALID_LOC = - 1 \<and> double_of_int INVALID_LOC = - 1"
  by (simp add: SearchNode_def INVALID_LOC_def double_of_int_def)

section \<open>Messages received\<close>

text \<open>
  C8. \<open>messageEvent\<close> returns at once, with every field as it was, when the source GUID
  of the message is the node's own.
\<close>

theorem messageEvent_own_message:
  "source_guid newMsg = node_guid s \<Longrightarrow> messageEvent s newMsg = s"
  by (simp add: messageEvent_def)

theorem messageEvent_own_message_witness:
  "messageEvent corridor_searched
     \<lparr>source_guid = 1,
      body = PlatformMotionMessage \<lparr>position = (1, 0, 4), orientation = (2, 0, 0, 0)\<rparr>\<rparr> =
   corridor_searched"
  using messageEvent_own_message
    [of "\<lparr>source_guid = 1,
          body = PlatformMotionMessage \<lparr>position = (1, 0, 4), orientation = (2, 0, 0, 0)\<rparr>\<rparr>"
        corridor_searched]
  by (simp add: corridor_searched_def)

text \<open>
  C9. \<open>messageEvent\<close> changes the node only if the message is a platform motion
  message whose orientation pair differs from \<open>(_robLocX, _robLocY)\<close>. A message that
  repeats the stored robot location changes nothing: the waypoint number in its
  \<open>position[0]\<close> is dropped and \<open>_waypointCounter\<close> keeps its value.
\<close>

theorem messageEvent_same_location:
  "(messageEvent s newMsg \<noteq> s \<longrightarrow>
      (\<exists>msg. body newMsg = PlatformMotionMessage msg \<and>
             (orientation0 msg \<noteq> robLocX s \<or> orientation1 msg \<noteq> robLocY s))) \<and>
   (\<forall>msg. body newMsg = PlatformMotionMessage msg \<and>
          orientation0 msg = robLocX s \<and> orientation1 msg = robLocY s \<longrightarrow>
          messageEvent s newMsg = s \<and>
          waypointCounter (messageEvent s newMsg) = waypointCounter s)"
  by (auto simp: messageEvent_def split: msg_body.splits if_splits)

theorem messageEvent_same_location_witness:
  "messageEvent corridor_searched
     \<lparr>source_guid = 2,
      body = PlatformMotionMessage \<lparr>position = (7, 0, 0), orientation = (1, 0, 0, 0)\<rparr>\<rparr> =
   corridor_searched \<and>
   waypointCounter (messageEvent corridor_searched
     \<lparr>source_guid = 2,
      body = PlatformMotionMessage \<lparr>position = (7, 0, 0), orientation = (1, 0, 0, 0)\<rparr>\<rparr>) = 0"
proof -
  let ?msg = "\<lparr>position = (7, 0, 0), orientation = (1, 0, 0, 0)\<rparr>"
  let ?m = "\<lparr>source_guid = 2, body = PlatformMotionMessage ?msg\<rparr>"
  have "body ?m = PlatformMotionMessage ?msg \<and>
        orientation0 ?msg = robLocX corridor_searched \<and>
        orientation1 ?msg = robLocY corridor_searched"
    by (simp add: corridor_searched_def orientation0_def orientation1_def)
  with messageEvent_same_location [of corridor_searched ?m]
  have "messageEvent corridor_searched ?m = corridor_searched \<and>
        waypointCounter (messageEvent corridor_searched ?m) = waypointCounter corridor_searched"
    by blast
  then show ?thesis by (simp add: corridor_searched_def)
qed

section \<open>Waypoint messages\<close>



section \<open>The completion check\<close>



text \<open>
  C10. A call of \<open>okStateEvent\<close> in the streaming branch with
  \<open>_waypointCounter + 2 == _numWaypoints\<close> only disconnects, and the run ends: no call of
  \<open>getNextWaypoint\<close>, no message. In particular, when the search returns 1 while
  \<open>_waypointCounter\<close> is still \<open>-1\<close> and the streaming branch is entered after it (the
  robot location converts, so that the search leaves the new robot location set), the
  call after the search disconnects.
\<close>

theorem okStateEvent_disconnects_at_once:
  "(streaming s \<and> waypointCounter s + 2 = numWaypoints s \<longrightarrow>
      run P s (OkState # ins) = Inr (s, [DisconnectPolySync])) \<and>
   (searching s \<and> searcher s = Some p \<and> start_converts s \<and>
    waypointCounter s = INVALID_LOC \<and>
    fst (searchAStar P p (getIndexFromState P p (robLocX s) (robLocY s))) = 1 \<longrightarrow>
      (\<exists>s'. run P s (OkState # OkState # ins) =
         Inr (s', [GetIndexFromState (robLocX s) (robLocY s),
                   SearchAStar (getIndexFromState P p (robLocX s) (robLocY s)),
                   DisconnectPolySync])))"
proof (intro conjI impI)
  assume a: "streaming s \<and> waypointCounter s + 2 = numWaypoints s"
  then have "waypointCounter s + 2 - 2 = numWaypoints s - 2" by simp
  then have "waypointCounter s = numWaypoints s - 2" by simp
  with a have "okStateEvent P s = Inr (s, [DisconnectPolySync])"
    by (intro okStateEvent_arrived) auto
  then show "run P s (OkState # ins) = Inr (s, [DisconnectPolySync])"
    by (simp add: step_def)
next
  let ?r = "searchAStar P p (getIndexFromState P p (robLocX s) (robLocY s))"
  let ?s1 = "s\<lparr>searcher := Some (snd ?r), numWaypoints := fst ?r,
               newRobLocX := double_of_int (int_of_double (robLocX s)),
               newRobLocY := double_of_int (int_of_double (robLocY s))\<rparr>"
  assume a: "searching s \<and> searcher s = Some p \<and> start_converts s \<and>
    waypointCounter s = INVALID_LOC \<and> fst ?r = 1"
  then have 1: "okStateEvent P s = Inr (?s1, [GetIndexFromState (robLocX s) (robLocY s),
                   SearchAStar (getIndexFromState P p (robLocX s) (robLocY s))])"
    by (simp add: okStateEvent_searching)
  from a have "streaming ?s1"
    by (auto simp: streaming_def searching_def publishing_goal_def generating_goal_def
        start_converts_def)
  moreover from a have "waypointCounter ?s1 = numWaypoints ?s1 - 2"
    by (simp add: INVALID_LOC_def)
  ultimately have 2: "okStateEvent P ?s1 = Inr (?s1, [DisconnectPolySync])"
    by (rule okStateEvent_arrived)
  from 1 2 have "run P s (OkState # OkState # ins) =
         Inr (?s1, [GetIndexFromState (robLocX s) (robLocY s),
                   SearchAStar (getIndexFromState P p (robLocX s) (robLocY s)),
                   DisconnectPolySync])"
    by (simp add: step_def)
  then show "\<exists>s'. run P s (OkState # OkState # ins) =
         Inr (s', [GetIndexFromState (robLocX s) (robLocY s),
                   SearchAStar (getIndexFromState P p (robLocX s) (robLocY s)),
                   DisconnectPolySync])" ..
qed

theorem okStateEvent_disconnects_at_once_witness:
  "run (corridor_planner 4) corridor_arrived [OkState, OkState] =
     Inr (corridor_arrived, [DisconnectPolySync]) \<and>
   trace_of (run (corridor_planner 4) corridor_at_goal [OkState, OkState, OkState]) =
     [GetIndexFromState 4 0, SearchAStar 4, DisconnectPolySync]"
proof -
  let ?P = "corridor_planner 4" and ?p = "\<lparr>goal_cell = 4, path = []\<rparr>"
  note dis = okStateEvent_disconnects_at_once
  have "streaming corridor_arrived \<and>
        waypointCounter corridor_arrived + 2 = numWaypoints corridor_arrived"
    by (simp add: corridor_branches) (simp add: corridor_arrived_def)
  with dis [of corridor_arrived ?P "[OkState]"]
  have 1: "run ?P corridor_arrived [OkState, OkState] = Inr (corridor_arrived, [DisconnectPolySync])"
    by blast
  have idx: "getIndexFromState ?P ?p (robLocX corridor_at_goal) (robLocY corridor_at_goal) = 4"
    "fst (searchAStar ?P ?p 4) = 1" "start_converts corridor_at_goal"
    by code_simp+
  have "searching corridor_at_goal \<and> searcher corridor_at_goal = Some ?p \<and>
        start_converts corridor_at_goal \<and>
        waypointCounter corridor_at_goal = INVALID_LOC \<and>
        fst (searchAStar ?P ?p
               (getIndexFromState ?P ?p (robLocX corridor_at_goal) (robLocY corridor_at_goal))) = 1"
    by (simp add: corridor_branches idx) (simp add: corridor_at_goal_def INVALID_LOC_def)
  with dis [of corridor_at_goal ?P "[OkState]" ?p]
  obtain s' where "run ?P corridor_at_goal [OkState, OkState, OkState] =
      Inr (s', [GetIndexFromState (robLocX corridor_at_goal) (robLocY corridor_at_goal),
                SearchAStar (getIndexFromState ?P ?p (robLocX corridor_at_goal)
                               (robLocY corridor_at_goal)),
                DisconnectPolySync])"
    by blast
  then have "trace_of (run ?P corridor_at_goal [OkState, OkState, OkState]) =
      [GetIndexFromState 4 0, SearchAStar 4, DisconnectPolySync]"
    by (simp add: trace_of_def idx) (simp add: corridor_at_goal_def)
  with 1 show ?thesis by simp
qed

section \<open>The sentinel and the search\<close>

text \<open>
  C3. Whenever \<open>okStateEvent\<close> calls \<open>getIndexFromState(_robLocX, _robLocY)\<close> and
  \<open>searchAStar\<close>, neither \<open>_robLocX\<close> nor \<open>_robLocY\<close> is \<open>INVALID_LOC\<close>; so in a run of
  the node no call of \<open>getIndexFromState\<close> has the sentinel as an argument.
\<close>

theorem search_start_is_known:
  "(\<forall>s s' evs x y k.
      okStateEvent P s = Inr (s', evs) \<and>
      (GetIndexFromState x y \<in> set evs \<or> SearchAStar k \<in> set evs) \<longrightarrow>
      robLocX s \<noteq> double_of_int INVALID_LOC \<and> robLocY s \<noteq> double_of_int INVALID_LOC \<and>
      (\<exists>p. searcher s = Some p \<and>
           evs = [GetIndexFromState (robLocX s) (robLocY s),
                  SearchAStar (getIndexFromState P p (robLocX s) (robLocY s))])) \<and>
   (\<forall>g ins s evs x y.
      run P (SearchNode g) ins = Inr (s, evs) \<and> GetIndexFromState x y \<in> set evs \<longrightarrow>
      x \<noteq> double_of_int INVALID_LOC \<and> y \<noteq> double_of_int INVALID_LOC)"
proof -
  have one: "robLocX s \<noteq> double_of_int INVALID_LOC \<and> robLocY s \<noteq> double_of_int INVALID_LOC \<and>
      (\<exists>p. searcher s = Some p \<and>
           evs = [GetIndexFromState (robLocX s) (robLocY s),
                  SearchAStar (getIndexFromState P p (robLocX s) (robLocY s))])"
    if ok: "okStateEvent P s = Inr (s', evs)"
      and ev: "GetIndexFromState x y \<in> set evs \<or> SearchAStar k \<in> set evs"
    for s :: "'a search_node" and s' evs x y k
    using ok
  proof (cases rule: okStateEvent_cases)
    case generating
    with ev show ?thesis by auto
  next
    case publishing
    with ev show ?thesis by (auto simp: sendGoalToRobot_def)
  next
    case (searching p)
    then show ?thesis by (auto simp: searching_def publishing_goal_def)
  next
    case arrived
    with ev show ?thesis by auto
  next
    case (streaming p)
    with ev show ?thesis by auto
  qed
  have all: "\<forall>e\<in>set evs. \<forall>x y. e = GetIndexFromState x y \<longrightarrow> x \<noteq> double_of_int INVALID_LOC \<and> y \<noteq> double_of_int INVALID_LOC"
    if "run P (SearchNode g) ins = Inr (s, evs)" for g ins evs and s :: "'a search_node"
    using that
  proof (rule run_events)
    fix s s1 :: "'a search_node" and evs1
    assume "okStateEvent P s = Inr (s1, evs1)"
    then have *: "GetIndexFromState x y \<in> set evs1 \<Longrightarrow>
        robLocX s \<noteq> double_of_int INVALID_LOC \<and> robLocY s \<noteq> double_of_int INVALID_LOC \<and>
        (\<exists>p. searcher s = Some p \<and>
           evs1 = [GetIndexFromState (robLocX s) (robLocY s),
                  SearchAStar (getIndexFromState P p (robLocX s) (robLocY s))])" for x y
      using one [of s s1 evs1 x y] by simp
    show "\<forall>e\<in>set evs1. \<forall>x y. e = GetIndexFromState x y \<longrightarrow> x \<noteq> double_of_int INVALID_LOC \<and> y \<noteq> double_of_int INVALID_LOC"
    proof (intro ballI allI impI)
      fix e x y
      assume "e \<in> set evs1" "e = GetIndexFromState x y"
      then have in1: "GetIndexFromState x y \<in> set evs1" by simp
      from * [OF in1] obtain p where
        "robLocX s \<noteq> double_of_int INVALID_LOC" "robLocY s \<noteq> double_of_int INVALID_LOC"
        "evs1 = [GetIndexFromState (robLocX s) (robLocY s),
                  SearchAStar (getIndexFromState P p (robLocX s) (robLocY s))]"
        by blast
      with in1 show "x \<noteq> double_of_int INVALID_LOC \<and> y \<noteq> double_of_int INVALID_LOC" by simp
    qed
  qed
  from one all show ?thesis by blast
qed

theorem search_start_is_known_witness:
  "okStateEvent (corridor_planner 4) corridor_located =
     Inr (corridor_searched, [GetIndexFromState 1 0, SearchAStar 1]) \<and>
   robLocX corridor_located \<noteq> double_of_int INVALID_LOC \<and>
   robLocY corridor_located \<noteq> double_of_int INVALID_LOC \<and>
   (1::double) \<noteq> double_of_int INVALID_LOC \<and> (0::double) \<noteq> double_of_int INVALID_LOC"
proof -
  let ?P = "corridor_planner 4"
  note ss = search_start_is_known [of ?P]
  note ok = corridor_located_search
  then have "okStateEvent ?P corridor_located =
     Inr (corridor_searched, [GetIndexFromState 1 0, SearchAStar 1]) \<and>
     (GetIndexFromState 1 0 \<in> set [GetIndexFromState 1 0, SearchAStar 1] \<or>
      SearchAStar 1 \<in> set [GetIndexFromState 1 0, SearchAStar 1])"
    by simp
  with ss have 1: "robLocX corridor_located \<noteq> double_of_int INVALID_LOC \<and>
      robLocY corridor_located \<noteq> double_of_int INVALID_LOC"
    by blast
  have "GetIndexFromState 1 0 \<in>
     set [NewPlanner, GetGoalX, GetGoalY, GetIndexFromState 1 0, SearchAStar 1]"
    by simp
  with ss corridor_searched_reached
  have 2: "(1::double) \<noteq> double_of_int INVALID_LOC \<and> (0::double) \<noteq> double_of_int INVALID_LOC"
    by blast
  from ok 1 2 show ?thesis by simp
qed

section \<open>Goal publication\<close>

lemma location_known_step:
  assumes "\<forall>m\<in>set (received ins). source_guid m \<noteq> g \<longrightarrow> reports_location m"
    and "node_guid s = g \<and> location_known s" and "i \<in> set ins"
    and "step P s i = Inr (s1, evs1)"
  shows "(node_guid s1 = g \<and> location_known s1) \<and> (\<forall>e\<in>set evs1. e \<noteq> SendGoalToRobot)"
proof (cases i)
  case OkState
  with assms(4) have ok: "okStateEvent P s = Inr (s1, evs1)" by simp
  from assms(2) have "\<not> publishing_goal s"
    by (simp add: publishing_goal_def location_known_def)
  with event_of_branch [OF ok] have "SendGoalToRobot \<notin> set evs1" by simp
  with assms(2) okStateEvent_node_guid [OF ok] okStateEvent_robLoc [OF ok]
  show ?thesis by (auto simp: location_known_def)
next
  case (Message m)
  with assms(3) have "m \<in> set (received ins)"
    by (induction ins rule: received.induct) auto
  with assms(1) have "source_guid m \<noteq> g \<longrightarrow> reports_location m" by simp
  with assms(2,4) Message show ?thesis
    by (auto simp: messageEvent_def location_known_def reports_location_def
        split: msg_body.splits if_splits)
qed

lemma no_goal_once_located:
  assumes "\<forall>m\<in>set (received ins). source_guid m \<noteq> g \<longrightarrow> reports_location m"
    and "node_guid s = g" "location_known s" "run P s ins = Inr (s', evs)"
  shows "SendGoalToRobot \<notin> set evs"
proof -
  have "(node_guid s' = g \<and> location_known s') \<and> (\<forall>e\<in>set evs. e \<noteq> SendGoalToRobot)"
    using assms(4)
  proof (rule run_invariant)
    show "node_guid s = g \<and> location_known s" using assms(2,3) by simp
  next
    fix t i t1 evs1
    assume "node_guid t = g \<and> location_known t" "i \<in> set ins" "step P t i = Inr (t1, evs1)"
    then show "(node_guid t1 = g \<and> location_known t1) \<and> (\<forall>e\<in>set evs1. e \<noteq> SendGoalToRobot)"
      using location_known_step [OF assms(1)] by blast
  qed
  then show ?thesis by auto
qed

lemma no_goal_after_search:
  assumes "\<forall>m\<in>set (received ins). source_guid m \<noteq> node_guid s \<longrightarrow> reports_location m"
    and "run P s ins = Inr (s', evs)"
  shows "SendGoalToRobot \<notin> set (dropWhile (\<lambda>e. \<not> isSearchAStar e) evs)"
  using assms
proof (induction ins arbitrary: s s' evs)
  case Nil
  then show ?case by simp
next
  case (Cons i ins)
  have rest: "\<forall>m\<in>set (received ins). source_guid m \<noteq> node_guid s \<longrightarrow> reports_location m"
    using Cons.prems(1) by (cases i) auto
  have one: "node_guid s1 = node_guid s \<and>
             ((\<exists>e\<in>set evs1. isSearchAStar e) \<longrightarrow>
                location_known s1 \<and> (\<exists>x y k. evs1 = [GetIndexFromState x y, SearchAStar k]))"
    if "step P s i = Inr (s1, evs1)" for s1 evs1
  proof (cases i)
    case OkState
    with that have "okStateEvent P s = Inr (s1, evs1)" by simp
    then show ?thesis
      by (cases rule: okStateEvent_cases)
        (auto simp: sendGoalToRobot_def location_known_def searching_def publishing_goal_def)
  next
    case (Message m)
    with that show ?thesis by auto
  qed
  from Cons.prems(2) show ?case
  proof (cases rule: run_Cons_cases)
    case last
    show ?thesis
    proof (cases "\<exists>e\<in>set evs. isSearchAStar e")
      case True
      with one [OF last(1)] show ?thesis by auto
    next
      case False
      then have "set (dropWhile (\<lambda>e. \<not> isSearchAStar e) evs) = {}"
        by (simp add: dropWhile_eq_Nil_conv)
      then show ?thesis by (simp only: empty_iff not_False_eq_True)
    qed
  next
    case (more s1 evs1 evs2)
    from one [OF more(1)] have guid: "node_guid s1 = node_guid s" by simp
    show ?thesis
    proof (cases "\<exists>e\<in>set evs1. isSearchAStar e")
      case True
      with one [OF more(1)] obtain x y k where
        loc: "location_known s1" and evs1: "evs1 = [GetIndexFromState x y, SearchAStar k]"
        by blast
      have "SendGoalToRobot \<notin> set evs2"
        using rest guid loc more(3) by (rule no_goal_once_located)
      with evs1 more(4) show ?thesis by simp
    next
      case False
      then have "dropWhile (\<lambda>e. \<not> isSearchAStar e) (evs1 @ evs2) =
                 dropWhile (\<lambda>e. \<not> isSearchAStar e) evs2"
        by (auto simp: dropWhile_append)
      moreover have "SendGoalToRobot \<notin> set (dropWhile (\<lambda>e. \<not> isSearchAStar e) evs2)"
        using rest guid more(3) by (intro Cons.IH) simp_all
      ultimately show ?thesis using more(4) by simp
    qed
  qed
qed

text \<open>
  C6, as amended. The goal is read from \<open>getGoalX\<close> and \<open>getGoalY\<close> in the call that
  generates it; the message of \<open>sendGoalToRobot\<close> has orientation
  \<open>(double(_golLocX), double(_golLocY), 0, 0)\<close>; \<open>okStateEvent\<close> publishes the goal only in a call that
  finds \<open>_robLocX\<close> or \<open>_robLocY\<close> equal to the sentinel; and in a run in which no message
  from another node reports the sentinel as a robot coordinate, no goal is published
  from the search on.
\<close>

theorem goal_publication:
  "(generating_goal s \<longrightarrow>
      okStateEvent P s =
        Inr (s\<lparr>searcher := Some (newPlanner P),
                golLocX := getGoalX P (newPlanner P),
                golLocY := getGoalY P (newPlanner P)\<rparr>,
             [NewPlanner, GetGoalX, GetGoalY])) \<and>
   map orientation (published (sendGoalToRobot s)) =
     [(double_of_int (golLocX s), double_of_int (golLocY s), 0, 0)] \<and>
   (\<forall>s' evs.
      okStateEvent P s = Inr (s', evs) \<and> SendGoalToRobot \<in> set evs \<longrightarrow>
      (robLocX s = double_of_int INVALID_LOC \<or> robLocY s = double_of_int INVALID_LOC) \<and>
      s' = s \<and> evs = sendGoalToRobot s @ [SleepMicro 10000]) \<and>
   (\<forall>g ins s' evs.
      run P (SearchNode g) ins = Inr (s', evs) \<and>
      (\<forall>m\<in>set (received ins). source_guid m \<noteq> g \<longrightarrow> reports_location m) \<longrightarrow>
      SendGoalToRobot \<notin> set (dropWhile (\<lambda>e. \<not> isSearchAStar e) evs))"
proof (intro conjI allI impI)
  assume "generating_goal s"
  then show "okStateEvent P s =
        Inr (s\<lparr>searcher := Some (newPlanner P),
                golLocX := getGoalX P (newPlanner P),
                golLocY := getGoalY P (newPlanner P)\<rparr>,
             [NewPlanner, GetGoalX, GetGoalY])"
    by (rule okStateEvent_generating)
next
  show "map orientation (published (sendGoalToRobot s)) =
     [(double_of_int (golLocX s), double_of_int (golLocY s), 0, 0)]"
    by (simp add: sendGoalToRobot_def)
next
  fix s' evs
  assume a: "okStateEvent P s = Inr (s', evs) \<and> SendGoalToRobot \<in> set evs"
  then have "publishing_goal s" using event_of_branch [of P s s' evs] by simp
  with a show "robLocX s = double_of_int INVALID_LOC \<or> robLocY s = double_of_int INVALID_LOC"
    and "s' = s" and "evs = sendGoalToRobot s @ [SleepMicro 10000]"
    by (auto simp: publishing_goal_def okStateEvent_publishing)
next
  fix g ins evs and s' :: "'a search_node"
  assume a: "run P (SearchNode g) ins = Inr (s', evs) \<and>
      (\<forall>m\<in>set (received ins). source_guid m \<noteq> g \<longrightarrow> reports_location m)"
  have "node_guid (SearchNode g :: 'a search_node) = g" by (simp add: SearchNode_def)
  with a show "SendGoalToRobot \<notin> set (dropWhile (\<lambda>e. \<not> isSearchAStar e) evs)"
    using no_goal_after_search [of ins "SearchNode g" P s' evs] by simp
qed

theorem goal_publication_witness:
  "okStateEvent (corridor_planner 4) (SearchNode 1) =
     Inr (SearchNode 1\<lparr>searcher := Some \<lparr>goal_cell = 4, path = []\<rparr>, golLocX := 4, golLocY := 0\<rparr>,
          [NewPlanner, GetGoalX, GetGoalY]) \<and>
   SendGoalToRobot \<notin> set (dropWhile (\<lambda>e. \<not> isSearchAStar e)
        [NewPlanner, GetGoalX, GetGoalY,
         SendGoalToRobot, Publish \<lparr>position = (0, 0, 0), orientation = (4, 0, 0, 0)\<rparr>,
         SleepMicro 10000,
         GetIndexFromState 1 0, SearchAStar 1])"
proof -
  let ?P = "corridor_planner 4"
  let ?ins = "[OkState, OkState, Message (start_report 1 0 0), OkState]"
  let ?evs = "[NewPlanner, GetGoalX, GetGoalY,
         SendGoalToRobot, Publish \<lparr>position = (0, 0, 0), orientation = (4, 0, 0, 0)\<rparr>,
         SleepMicro 10000,
         GetIndexFromState 1 0, SearchAStar 1]"
  note gp = goal_publication [of "SearchNode 1" ?P]
  have "generating_goal (SearchNode 1 :: corridor search_node)" by (rule SearchNode_fresh)
  with gp have "okStateEvent ?P (SearchNode 1) =
        Inr (SearchNode 1\<lparr>searcher := Some (newPlanner ?P),
                golLocX := getGoalX ?P (newPlanner ?P),
                golLocY := getGoalY ?P (newPlanner ?P)\<rparr>,
             [NewPlanner, GetGoalX, GetGoalY])"
    by blast
  then have 1: "okStateEvent ?P (SearchNode 1) =
     Inr (SearchNode 1\<lparr>searcher := Some \<lparr>goal_cell = 4, path = []\<rparr>, golLocX := 4, golLocY := 0\<rparr>,
          [NewPlanner, GetGoalX, GetGoalY])"
    by (simp add: corridor_planner_def)
  have "\<forall>m\<in>set (received ?ins). source_guid m \<noteq> 1 \<longrightarrow> reports_location m"
    by (simp add: start_report_def robot_report_def reports_location_def
        PlatformMotionMessage_new_def orientation0_def orientation1_def double_of_INVALID_LOC)
  with gp corridor_goal_published
  have 2: "SendGoalToRobot \<notin> set (dropWhile (\<lambda>e. \<not> isSearchAStar e) ?evs)"
    by blast
  from 1 2 show ?thesis by simp
qed

text \<open>
  C6 as stated fails: the robot reports cell 1, the node searches, a message then reports
  \<open>-1\<close> as the robot's x coordinate, and the next call publishes the goal again.
\<close>

theorem goal_after_search_counterexample:
  "trace_of (run (corridor_planner 4) (SearchNode 1)
      [OkState, Message (start_report 1 0 0), OkState, Message (start_report (- 1) 0 0),
       OkState]) =
     [NewPlanner, GetGoalX, GetGoalY, GetIndexFromState 1 0, SearchAStar 1,
      SendGoalToRobot,
      Publish \<lparr>position = (0, 0, 0), orientation = (4, 0, 0, 0)\<rparr>,
      SleepMicro 10000]"
  by code_simp

section \<open>The order of a session\<close>

lemma corridor_session_run:
  "run (corridor_planner 4) (SearchNode 1)
     [OkState, OkState, Message (start_report 1 0 0), OkState, OkState] =
   Inr (corridor_searched\<lparr>newRobLocX := 2, newRobLocY := 0\<rparr>,
        [NewPlanner, GetGoalX, GetGoalY,
         SendGoalToRobot, Publish \<lparr>position = (0, 0, 0), orientation = (4, 0, 0, 0)\<rparr>,
         SleepMicro 10000,
         GetIndexFromState 1 0, SearchAStar 1,
         GetNextWaypoint 1, SendNextWaypoint 2 1, GetStateFromIndex 2,
         Publish \<lparr>position = (1, 0, 4), orientation = (2, 0, 0, 0)\<rparr>, SleepMicro 1000])"
  by code_simp

text \<open>
  C4, as amended. \<open>okStateEvent\<close> takes its branch by the fields as they are at the call.
  In a run of the node from its construction: the call that searches finds the goal
  generated, both robot coordinates different from the sentinel and the new robot
  location not yet set; no goal is published before the goal is generated; the goal is
  generated before the first search; no waypoint is sent before the first search.
  \<open>searchAStar\<close> is called at most once if the planner's coordinates are never the
  sentinel pair and no report from another node has both coordinates converting to \<open>-1\<close>
  under \<open>int(...)\<close>. No goal is published from the search on if no report from another
  node carries the sentinel as a coordinate.
\<close>

theorem session_order:
  assumes "run P (SearchNode g) ins = Inr (s, evs)"
  shows "(\<forall>t t' evs'.
            okStateEvent P t = Inr (t', evs') \<and> (\<exists>e\<in>set evs'. isSearchAStar e) \<longrightarrow>
            \<not> (golLocX t = INVALID_LOC \<and> golLocY t = INVALID_LOC) \<and>
            robLocX t \<noteq> double_of_int INVALID_LOC \<and> robLocY t \<noteq> double_of_int INVALID_LOC \<and>
            newRobLocX t = double_of_int INVALID_LOC \<and>
            newRobLocY t = double_of_int INVALID_LOC) \<and>
         SendGoalToRobot \<notin> set (takeWhile (\<lambda>e. e \<noteq> NewPlanner) evs) \<and>
         ((\<exists>e\<in>set evs. isSearchAStar e) \<longrightarrow>
            NewPlanner \<in> set (takeWhile (\<lambda>e. \<not> isSearchAStar e) evs)) \<and>
         (\<forall>e\<in>set (takeWhile (\<lambda>e. \<not> isSearchAStar e) evs). \<not> isSendNextWaypoint e) \<and>
         (coordinates_known P \<and>
          (\<forall>m\<in>set (received ins). source_guid m \<noteq> g \<longrightarrow> report_converts m) \<longrightarrow>
            length (filter isSearchAStar evs) \<le> 1) \<and>
         ((\<forall>m\<in>set (received ins). source_guid m \<noteq> g \<longrightarrow> reports_location m) \<longrightarrow>
            SendGoalToRobot \<notin> set (dropWhile (\<lambda>e. \<not> isSearchAStar e) evs))"
proof (intro conjI)
  show "\<forall>t t' evs'.
            okStateEvent P t = Inr (t', evs') \<and> (\<exists>e\<in>set evs'. isSearchAStar e) \<longrightarrow>
            \<not> (golLocX t = INVALID_LOC \<and> golLocY t = INVALID_LOC) \<and>
            robLocX t \<noteq> double_of_int INVALID_LOC \<and> robLocY t \<noteq> double_of_int INVALID_LOC \<and>
            newRobLocX t = double_of_int INVALID_LOC \<and>
            newRobLocY t = double_of_int INVALID_LOC"
  proof (intro allI impI)
    fix t t' :: "'a search_node" and evs'
    assume "okStateEvent P t = Inr (t', evs') \<and> (\<exists>e\<in>set evs'. isSearchAStar e)"
    then have "searching t" using event_of_branch [of P t t' evs'] by simp
    then show "\<not> (golLocX t = INVALID_LOC \<and> golLocY t = INVALID_LOC) \<and>
            robLocX t \<noteq> double_of_int INVALID_LOC \<and> robLocY t \<noteq> double_of_int INVALID_LOC \<and>
            newRobLocX t = double_of_int INVALID_LOC \<and>
            newRobLocY t = double_of_int INVALID_LOC"
      by (auto simp: searching_def publishing_goal_def generating_goal_def)
  qed
  show "SendGoalToRobot \<notin> set (takeWhile (\<lambda>e. e \<noteq> NewPlanner) evs)"
    using SearchNode_fresh(1) assms by (rule no_goal_before_generation)
  show "(\<exists>e\<in>set evs. isSearchAStar e) \<longrightarrow>
            NewPlanner \<in> set (takeWhile (\<lambda>e. \<not> isSearchAStar e) evs)"
    using goal_generated_before_search [OF SearchNode_fresh(1) assms] by blast
  show "\<forall>e\<in>set (takeWhile (\<lambda>e. \<not> isSearchAStar e) evs). \<not> isSendNextWaypoint e"
    using SearchNode_fresh(2) assms by (rule no_waypoint_before_search)
  have guid: "node_guid (SearchNode g :: 'a search_node) = g"
    and fresh: "\<not> location_known (SearchNode g :: 'a search_node)"
    by (simp_all add: SearchNode_def location_known_def)
  show "coordinates_known P \<and>
          (\<forall>m\<in>set (received ins). source_guid m \<noteq> g \<longrightarrow> report_converts m) \<longrightarrow>
            length (filter isSearchAStar evs) \<le> 1"
    using at_most_one_search [of P ins "SearchNode g" s evs] guid fresh assms by simp
  show "(\<forall>m\<in>set (received ins). source_guid m \<noteq> g \<longrightarrow> reports_location m) \<longrightarrow>
            SendGoalToRobot \<notin> set (dropWhile (\<lambda>e. \<not> isSearchAStar e) evs)"
    using no_goal_after_search [of ins "SearchNode g" P s evs] guid assms by simp
qed

theorem session_order_witness:
  "length (filter isSearchAStar
        [NewPlanner, GetGoalX, GetGoalY,
         SendGoalToRobot, Publish \<lparr>position = (0, 0, 0), orientation = (4, 0, 0, 0)\<rparr>,
         SleepMicro 10000,
         GetIndexFromState 1 0, SearchAStar 1,
         GetNextWaypoint 1, SendNextWaypoint 2 1, GetStateFromIndex 2,
         Publish \<lparr>position = (1, 0, 4), orientation = (2, 0, 0, 0)\<rparr>, SleepMicro 1000]) \<le> 1 \<and>
   NewPlanner \<in> set (takeWhile (\<lambda>e. \<not> isSearchAStar e)
        [NewPlanner, GetGoalX, GetGoalY,
         SendGoalToRobot, Publish \<lparr>position = (0, 0, 0), orientation = (4, 0, 0, 0)\<rparr>,
         SleepMicro 10000,
         GetIndexFromState 1 0, SearchAStar 1,
         GetNextWaypoint 1, SendNextWaypoint 2 1, GetStateFromIndex 2,
         Publish \<lparr>position = (1, 0, 4), orientation = (2, 0, 0, 0)\<rparr>, SleepMicro 1000]) \<and>
   SendGoalToRobot \<notin> set (dropWhile (\<lambda>e. \<not> isSearchAStar e)
        [NewPlanner, GetGoalX, GetGoalY,
         SendGoalToRobot, Publish \<lparr>position = (0, 0, 0), orientation = (4, 0, 0, 0)\<rparr>,
         SleepMicro 10000,
         GetIndexFromState 1 0, SearchAStar 1,
         GetNextWaypoint 1, SendNextWaypoint 2 1, GetStateFromIndex 2,
         Publish \<lparr>position = (1, 0, 4), orientation = (2, 0, 0, 0)\<rparr>, SleepMicro 1000]) \<and>
   SendGoalToRobot \<notin> set (takeWhile (\<lambda>e. e \<noteq> NewPlanner)
        [NewPlanner, GetGoalX, GetGoalY,
         SendGoalToRobot, Publish \<lparr>position = (0, 0, 0), orientation = (4, 0, 0, 0)\<rparr>,
         SleepMicro 10000,
         GetIndexFromState 1 0, SearchAStar 1,
         GetNextWaypoint 1, SendNextWaypoint 2 1, GetStateFromIndex 2,
         Publish \<lparr>position = (1, 0, 4), orientation = (2, 0, 0, 0)\<rparr>, SleepMicro 1000]) \<and>
   \<not> isSendNextWaypoint SendGoalToRobot"
proof -
  let ?P = "corridor_planner 4"
  let ?ins = "[OkState, OkState, Message (start_report 1 0 0), OkState, OkState]"
  let ?evs = "[NewPlanner, GetGoalX, GetGoalY,
         SendGoalToRobot, Publish \<lparr>position = (0, 0, 0), orientation = (4, 0, 0, 0)\<rparr>,
         SleepMicro 10000,
         GetIndexFromState 1 0, SearchAStar 1,
         GetNextWaypoint 1, SendNextWaypoint 2 1, GetStateFromIndex 2,
         Publish \<lparr>position = (1, 0, 4), orientation = (2, 0, 0, 0)\<rparr>, SleepMicro 1000]"
  note so = session_order [OF corridor_session_run]
  have conv: "\<forall>m\<in>set (received ?ins). source_guid m \<noteq> 1 \<longrightarrow> report_converts m"
    by code_simp
  have loc: "\<forall>m\<in>set (received ?ins). source_guid m \<noteq> 1 \<longrightarrow> reports_location m"
    by code_simp
  have a: "\<exists>e\<in>set ?evs. isSearchAStar e" by simp
  have b: "SendGoalToRobot \<in> set (takeWhile (\<lambda>e. \<not> isSearchAStar e) ?evs)" by simp
  from so corridor_coordinates_known conv loc a b
  have "length (filter isSearchAStar ?evs) \<le> 1 \<and>
     NewPlanner \<in> set (takeWhile (\<lambda>e. \<not> isSearchAStar e) ?evs) \<and>
     SendGoalToRobot \<notin> set (dropWhile (\<lambda>e. \<not> isSearchAStar e) ?evs) \<and>
     SendGoalToRobot \<notin> set (takeWhile (\<lambda>e. e \<noteq> NewPlanner) ?evs) \<and>
     \<not> isSendNextWaypoint SendGoalToRobot"
    by blast
  then show ?thesis .
qed

text \<open>
  C4 as stated fails, in three runs. The robot reports \<open>(-1.5, -1.5)\<close>: neither
  coordinate is the sentinel, the search leaves \<open>int(-1.5) = -1\<close> in \<open>_newRobLocX\<close> and
  \<open>_newRobLocY\<close>, and the next call searches again. With \<open>lost_planner\<close> the first waypoint
  has the sentinel pair as its coordinates, and the call after it searches again. And a
  report with \<open>-1\<close> as the y coordinate after the search sends the node back to
  publishing the goal.
\<close>

theorem session_order_counterexample:
  "filter isSearchAStar
     (trace_of (run (corridor_planner 4) (SearchNode 1)
        [OkState, Message (start_report (- 3 / 2) (- 3 / 2) 0), OkState, OkState])) =
     [SearchAStar (- 6), SearchAStar (- 6)] \<and>
   filter isSearchAStar
     (trace_of (run lost_planner (SearchNode 1)
        [OkState, Message (start_report 1 0 0), OkState, OkState, OkState])) =
     [SearchAStar 1, SearchAStar 1] \<and>
   trace_of (run (corridor_planner 4) (SearchNode 1)
      [OkState, Message (start_report 1 0 0), OkState, Message (start_report 1 (- 1) 0),
       OkState]) =
     [NewPlanner, GetGoalX, GetGoalY, GetIndexFromState 1 0, SearchAStar 1,
      SendGoalToRobot,
      Publish \<lparr>position = (0, 0, 0), orientation = (4, 0, 0, 0)\<rparr>,
      SleepMicro 10000]"
  by code_simp

section \<open>Streaming to a robot that acknowledges\<close>

text \<open>
  The whole trace of the streaming loop with the acknowledging robot: one group of
  events per waypoint, then the disconnect. The bound on the number of calls is reached
  only by the call that disconnects.
\<close>

lemma stream_trace:
  assumes "streaming s" "searcher s = Some p" "node_guid s \<noteq> r"
    and "sint (waypointCounter s) + 2 \<le> sint (numWaypoints s)" and "path_ahead P p s"
  shows "\<exists>s'. stream (nat (sint (numWaypoints s) - 1 - sint (waypointCounter s))) P r s =
           Inr (s', concat (map (\<lambda>k. waypoint_events P p (numWaypoints s) (word_of_int k))
                              [sint (waypointCounter s) + 1..sint (numWaypoints s) - 2]) @
                    [DisconnectPolySync])"
  using assms
proof (induction "nat (sint (numWaypoints s) - 2 - sint (waypointCounter s))" arbitrary: s)
  case 0
  then have "sint (waypointCounter s) = sint (numWaypoints s) - 2" by simp
  then have "(word_of_int (sint (waypointCounter s)) :: c_int) =
             word_of_int (sint (numWaypoints s) - 2)"
    by simp
  then have c: "waypointCounter s = numWaypoints s - 2" by simp
  have fuel: "nat (sint (numWaypoints s) - 1 - sint (waypointCounter s)) = Suc 0"
    using \<open>sint (waypointCounter s) = sint (numWaypoints s) - 2\<close> by simp
  have nil: "[sint (waypointCounter s) + 1..sint (numWaypoints s) - 2] = []"
    using \<open>sint (waypointCounter s) = sint (numWaypoints s) - 2\<close> by simp
  have "okStateEvent P s = Inr (s, [DisconnectPolySync])"
    using "0.prems"(1) c by (rule okStateEvent_arrived)
  then show ?case
    unfolding fuel nil by simp
next
  case (Suc k)
  let ?c = "waypointCounter s" and ?n = "numWaypoints s"
  let ?xy = "waypoint_xy P p (?c + 1)"
  let ?s1 = "s\<lparr>newRobLocX := fst ?xy, newRobLocY := snd ?xy\<rparr>"
  let ?s2 = "?s1\<lparr>robLocX := fst ?xy, robLocY := snd ?xy, waypointCounter := ?c + 1\<rparr>"
  from Suc.hyps(2) have lt: "sint ?c + 1 \<le> sint ?n - 2" by simp
  then have sc1: "sint (?c + 1) = sint ?c + 1"
    by (intro sint_succ32 [of ?c ?n]) simp
  have ne: "?c \<noteq> ?n - 2"
  proof
    assume "?c = ?n - 2"
    then have "?c + 1 = ?n - 1" by simp
    then have "?c + 1 + 1 = ?n" by simp
    then have "sint (?c + 1 + 1) = sint ?n" by simp
    moreover have "sint (?c + 1 + 1) = sint (?c + 1) + 1"
      using lt sc1 by (intro sint_succ32 [of "?c + 1" ?n]) simp
    ultimately show False using lt sc1 by simp
  qed
  have w1: "(word_of_int (sint ?c + 1) :: c_int) = ?c + 1" by simp
  have fuel: "nat (sint ?n - 1 - sint ?c) = Suc (nat (sint ?n - 1 - sint (?c + 1)))"
    using lt sc1 by simp
  have upto: "[sint ?c + 1..sint ?n - 2] = (sint ?c + 1) # [sint ?c + 2..sint ?n - 2]"
    using lt by (simp add: upto_rec1 add.commute)
  have ok: "okStateEvent P s = Inr (?s1, waypoint_events P p ?n (?c + 1))"
    using Suc.prems(1) ne Suc.prems(2)
    by (simp add: okStateEvent_streaming waypoint_events_def)
  have first: "fst ?xy \<noteq> double_of_int INVALID_LOC" "snd ?xy \<noteq> double_of_int INVALID_LOC"
    "?xy \<noteq> (robLocX s, robLocY s)"
    using Suc.prems(5) lt by (simp_all add: path_ahead_def upto w1)
  then have moved: "fst ?xy \<noteq> robLocX s \<or> snd ?xy \<noteq> robLocY s"
    by (auto simp: prod_eq_iff)
  have msg: "foldl messageEvent ?s1
               (map (robot_report r) (published (waypoint_events P p ?n (?c + 1)))) = ?s2"
    using Suc.prems(3) moved
    by (auto simp: waypoint_events_def robot_report_def messageEvent_def waypoint_msg_def
        orientation0_def orientation1_def position0_def)
  have s2: "streaming ?s2" "searcher ?s2 = Some p" "node_guid ?s2 \<noteq> r"
    "sint (waypointCounter ?s2) + 2 \<le> sint (numWaypoints ?s2)"
    using Suc.prems(1,2,3) first lt sc1
    by (auto simp: streaming_def searching_def publishing_goal_def generating_goal_def)
  have ahead: "path_ahead P p ?s2"
    unfolding path_ahead_def
  proof
    fix j
    assume "j \<in> set [sint (waypointCounter ?s2) + 1..sint (numWaypoints ?s2) - 2]"
    then have j: "sint ?c + 2 \<le> j" "j \<le> sint ?n - 2" using sc1 by simp_all
    then have "j \<in> set [sint ?c + 1..sint ?n - 2]" by simp
    with Suc.prems(5) have
      "fst (waypoint_xy P p (word_of_int j)) \<noteq> double_of_int INVALID_LOC \<and>
       snd (waypoint_xy P p (word_of_int j)) \<noteq> double_of_int INVALID_LOC \<and>
       waypoint_xy P p (word_of_int j) \<noteq>
         (if j = sint ?c + 1 then (robLocX s, robLocY s)
          else waypoint_xy P p (word_of_int (j - 1)))"
      unfolding path_ahead_def by (rule bspec)
    with j have *: "fst (waypoint_xy P p (word_of_int j)) \<noteq> double_of_int INVALID_LOC"
      "snd (waypoint_xy P p (word_of_int j)) \<noteq> double_of_int INVALID_LOC"
      "waypoint_xy P p (word_of_int j) \<noteq> waypoint_xy P p (word_of_int (j - 1))"
      by simp_all
    have "(if j = sint (waypointCounter ?s2) + 1 then (robLocX ?s2, robLocY ?s2)
           else waypoint_xy P p (word_of_int (j - 1))) = waypoint_xy P p (word_of_int (j - 1))"
      using sc1 w1 by (auto simp: add.commute)
    with * show "fst (waypoint_xy P p (word_of_int j)) \<noteq> double_of_int INVALID_LOC \<and>
       snd (waypoint_xy P p (word_of_int j)) \<noteq> double_of_int INVALID_LOC \<and>
       waypoint_xy P p (word_of_int j) \<noteq>
         (if j = sint (waypointCounter ?s2) + 1 then (robLocX ?s2, robLocY ?s2)
          else waypoint_xy P p (word_of_int (j - 1)))"
      by (simp only: simp_thms)
  qed
  have k: "k = nat (sint (numWaypoints ?s2) - 2 - sint (waypointCounter ?s2))"
    using Suc.hyps(2) sc1 by simp
  have range2: "[sint (waypointCounter ?s2) + 1..sint (numWaypoints ?s2) - 2] =
                [sint ?c + 2..sint ?n - 2]"
    using sc1 by (simp add: add.commute)
  from Suc.hyps(1) [OF k s2 ahead] obtain s' where
    rest: "stream (nat (sint ?n - 1 - sint (?c + 1))) P r ?s2 =
             Inr (s', concat (map (\<lambda>k. waypoint_events P p ?n (word_of_int k))
                                [sint ?c + 2..sint ?n - 2]) @
                      [DisconnectPolySync])"
    unfolding range2 by auto
  have "DisconnectPolySync \<notin> set (waypoint_events P p ?n (?c + 1))"
    by (simp add: waypoint_events_def)
  with ok msg rest show ?case
    unfolding fuel upto by (simp add: w1)
qed

text \<open>
  C1, as amended. From a state of the streaming branch in which the robot has
  acknowledged waypoint \<open>c\<close> (the value of \<open>_waypointCounter\<close>), with \<open>n\<close> waypoints in all and
  a robot that acknowledges every waypoint sent, the run is complete (the node
  disconnects) and the node calls \<open>getNextWaypoint(i)\<close> and publishes the coordinates of
  waypoint \<open>i\<close> for every sequence index \<open>i\<close> with \<open>c < i < n - 1\<close>; it calls it for no
  index up to \<open>c\<close>, so the start cell, index 0, is not sent to a robot that reported it.
\<close>

theorem stream_delivers:
  assumes "streaming s" "searcher s = Some p" "node_guid s \<noteq> r"
    and "sint (waypointCounter s) + 2 \<le> sint (numWaypoints s)" and "path_ahead P p s"
  shows "\<exists>s' evs.
           stream (nat (sint (numWaypoints s) - 1 - sint (waypointCounter s))) P r s =
             Inr (s', evs) \<and>
           DisconnectPolySync \<in> set evs \<and>
           (\<forall>i. sint (waypointCounter s) < sint i \<and> sint i < sint (numWaypoints s) - 1 \<longrightarrow>
                GetNextWaypoint i \<in> set evs \<and>
                Publish (waypoint_msg P p (numWaypoints s) i) \<in> set evs) \<and>
           (\<forall>i. sint i \<le> sint (waypointCounter s) \<longrightarrow> GetNextWaypoint i \<notin> set evs)"
proof -
  let ?c = "waypointCounter s" and ?n = "numWaypoints s"
  let ?evs = "concat (map (\<lambda>k. waypoint_events P p ?n (word_of_int k))
                [sint ?c + 1..sint ?n - 2]) @ [DisconnectPolySync]"
  from stream_trace [OF assms] obtain s' where
    run: "stream (nat (sint ?n - 1 - sint ?c)) P r s = Inr (s', ?evs)" ..
  have req: "GetNextWaypoint i \<in> set ?evs \<longleftrightarrow>
               (\<exists>k. sint ?c + 1 \<le> k \<and> k \<le> sint ?n - 2 \<and> i = word_of_int k)" for i
    by (auto simp: waypoint_events_def)
  have sent: "GetNextWaypoint i \<in> set ?evs \<and> Publish (waypoint_msg P p ?n i) \<in> set ?evs"
    if "sint ?c < sint i \<and> sint i < sint ?n - 1" for i
  proof -
    from that have "sint i \<in> set [sint ?c + 1..sint ?n - 2]" by simp
    then have "set (waypoint_events P p ?n (word_of_int (sint i))) \<subseteq> set ?evs"
      by auto
    then show ?thesis by (simp add: waypoint_events_def)
  qed
  have skipped: "GetNextWaypoint i \<notin> set ?evs" if "sint i \<le> sint ?c" for i
  proof
    assume "GetNextWaypoint i \<in> set ?evs"
    with req obtain k where k: "sint ?c + 1 \<le> k" "k \<le> sint ?n - 2" "i = word_of_int k"
      by blast
    from k(1,2) sint_range32 [of ?c] sint_range32 [of ?n]
    have "- (2 ^ 31) \<le> k" "k < 2 ^ 31" by simp_all
    then have "sint (word_of_int k :: c_int) = k" by (rule sint_word_of_int32)
    with k that show False by simp
  qed
  from run sent skipped show ?thesis by (intro exI [of _ s'] exI [of _ ?evs]) auto
qed

theorem stream_delivers_witness:
  "\<exists>s' evs.
     stream 3 (corridor_planner 4) 2 corridor_searched = Inr (s', evs) \<and>
     DisconnectPolySync \<in> set evs \<and>
     GetNextWaypoint 1 \<in> set evs \<and>
     Publish \<lparr>position = (1, 0, 4), orientation = (2, 0, 0, 0)\<rparr> \<in> set evs \<and>
     GetNextWaypoint 2 \<in> set evs \<and>
     Publish \<lparr>position = (2, 0, 4), orientation = (3, 0, 0, 0)\<rparr> \<in> set evs \<and>
     GetNextWaypoint 0 \<notin> set evs"
proof -
  let ?P = "corridor_planner 4" and ?p = "\<lparr>goal_cell = 4, path = [1, 2, 3, 4]\<rparr>"
  have h: "streaming corridor_searched" "searcher corridor_searched = Some ?p"
    "node_guid corridor_searched \<noteq> 2"
    "sint (waypointCounter corridor_searched) + 2 \<le> sint (numWaypoints corridor_searched)"
    by (simp_all add: corridor_branches) (simp_all add: corridor_searched_def)
  have ahead: "path_ahead ?P ?p corridor_searched"
    by code_simp
  have n: "numWaypoints corridor_searched = 4" "waypointCounter corridor_searched = 0"
    by (simp_all add: corridor_searched_def)
  have fuel: "nat (sint (4 :: c_int) - 1 - sint (0 :: c_int)) = 3" by simp
  have m: "waypoint_msg ?P ?p 4 1 = \<lparr>position = (1, 0, 4), orientation = (2, 0, 0, 0)\<rparr>"
    "waypoint_msg ?P ?p 4 2 = \<lparr>position = (2, 0, 4), orientation = (3, 0, 0, 0)\<rparr>"
    by code_simp+
  from stream_delivers [OF h ahead, unfolded n fuel] obtain s' evs where
    1: "stream 3 ?P 2 corridor_searched = Inr (s', evs)" "DisconnectPolySync \<in> set evs"
    and 2: "\<forall>i. sint (0 :: c_int) < sint i \<and> sint i < sint (4 :: c_int) - 1 \<longrightarrow>
                GetNextWaypoint i \<in> set evs \<and> Publish (waypoint_msg ?P ?p 4 i) \<in> set evs"
    and 3: "\<forall>i. sint i \<le> sint (0 :: c_int) \<longrightarrow> GetNextWaypoint i \<notin> set evs"
    by blast
  from 2 [rule_format, of 1] 2 [rule_format, of 2] 3 [rule_format, of 0]
  have "GetNextWaypoint 1 \<in> set evs" "GetNextWaypoint 2 \<in> set evs"
    "Publish \<lparr>position = (1, 0, 4), orientation = (2, 0, 0, 0)\<rparr> \<in> set evs"
    "Publish \<lparr>position = (2, 0, 4), orientation = (3, 0, 0, 0)\<rparr> \<in> set evs"
    "GetNextWaypoint 0 \<notin> set evs"
    by (simp_all add: m)
  with 1 show ?thesis by blast
qed

text \<open>
  C1 as stated fails in the corridor session: the stored path has the four cells 1 to 4,
  the robot acknowledges every waypoint, and the node asks for the indices 1 and 2 only
  and sends the cells 2 and 3.
\<close>

theorem stream_all_indices_counterexample:
  "final_state (session 10 (corridor_planner 4) 1 2 (1, 0) 0) = Some corridor_arrived \<and>
   numWaypoints corridor_arrived = 4 \<and>
   searcher corridor_arrived = Some \<lparr>goal_cell = 4, path = [1, 2, 3, 4]\<rparr> \<and>
   DisconnectPolySync \<in> set (trace_of (session 10 (corridor_planner 4) 1 2 (1, 0) 0)) \<and>
   waypoints_requested (trace_of (session 10 (corridor_planner 4) 1 2 (1, 0) 0)) = [1, 2] \<and>
   map orientation (published (trace_of (session 10 (corridor_planner 4) 1 2 (1, 0) 0))) =
     [(2, 0, 0, 0), (3, 0, 0, 0)] \<and>
   GetNextWaypoint 0 \<notin> set (trace_of (session 10 (corridor_planner 4) 1 2 (1, 0) 0)) \<and>
   GetNextWaypoint 3 \<notin> set (trace_of (session 10 (corridor_planner 4) 1 2 (1, 0) 0))"
  by code_simp

end
